theory Spec2Isabelle
  imports
    Main
    "HOL-Library.Char_ord"
    "HOL-Library.List_Lexorder"
    "HOL-Library.Sublist"
begin

section \<open>Strings as Python sees them\<close>

text \<open>
  The scraper is a single Python module, \<^verbatim>\<open>financial_news_scraper.py\<close>. Its
  strings are modelled as \<^typ>\<open>string\<close>, one list element per character, so
  \<^const>\<open>length\<close> is Python's \<^verbatim>\<open>len\<close>. The type
  \<^typ>\<open>char\<close> has 256 values; they stand for the characters with the code points
  0 to 255, and text with other characters is outside the model. On these characters
  the functions below are \<^verbatim>\<open>str.lower\<close>, \<^verbatim>\<open>str.strip\<close>
  and the regular-expression classes \<^verbatim>\<open>\d\<close> and \<^verbatim>\<open>\s\<close>.
\<close>

text \<open>
  The characters \<^verbatim>\<open>str.lower\<close> changes: the letters A to Z and the
  capital letters of the upper half, 0xC0 to 0xDE without the multiplication sign
  0xD7. Each goes to the character 32 places on.
\<close>

definition is_upper :: "char \<Rightarrow> bool" where
  "is_upper c =
     (let n = (of_char c :: nat)
      in (65 \<le> n \<and> n \<le> 90) \<or> (192 \<le> n \<and> n \<le> 214) \<or> (216 \<le> n \<and> n \<le> 222))"

definition lower_char :: "char \<Rightarrow> char" where
  "lower_char c = (if is_upper c then char_of (of_char c + (32::nat)) else c)"

definition lower :: "string \<Rightarrow> string" where
  "lower s = map lower_char s"

definition is_digit :: "char \<Rightarrow> bool" where
  "is_digit c = (CHR ''0'' \<le> c \<and> c \<le> CHR ''9'')"

text \<open>
  Python's \<^verbatim>\<open>str.isspace\<close>, which \<^verbatim>\<open>strip()\<close> and
  \<^verbatim>\<open>\s\<close> share: tab, line feed, vertical tab, form feed, carriage
  return, the four separators 0x1C to 0x1F, the space, the next-line character 0x85
  and the no-break space 0xA0.
\<close>

definition is_space :: "char \<Rightarrow> bool" where
  "is_space c =
     (let n = (of_char c :: nat)
      in (9 \<le> n \<and> n \<le> 13) \<or> (28 \<le> n \<and> n \<le> 32) \<or> n = 133 \<or> n = 160)"

definition strip :: "string \<Rightarrow> string" where
  "strip s = rev (dropWhile is_space (rev (dropWhile is_space s)))"

text \<open>\<^verbatim>\<open>k in s\<close> on strings: \<open>k\<close> occurs in \<open>s\<close> as a contiguous run.\<close>

fun contains :: "string \<Rightarrow> string \<Rightarrow> bool" where
  "contains [] k = (k = [])"
| "contains (x # xs) k = (prefix k (x # xs) \<or> contains xs k)"



text \<open>\<^verbatim>\<open>sep.join(parts)\<close>.\<close>

fun join :: "string \<Rightarrow> string list \<Rightarrow> string" where
  "join sep [] = []"
| "join sep [p] = p"
| "join sep (p # q # ps) = p @ sep @ join sep (q # ps)"

section \<open>Article extraction: content and summary\<close>

text \<open>
  \<^verbatim>\<open>extract_article_content\<close>, lines 194 to 214. The parsed page is the
  HTML library's object; what the code asks of it is
  \<^verbatim>\<open>soup.select(selector)\<close> (the elements a CSS selector matches, in
  document order), \<^verbatim>\<open>soup.body\<close> and, of an element,
  \<^verbatim>\<open>find_all('p')\<close> with each paragraph's \<^verbatim>\<open>.text\<close>. An
  element is therefore the list of its paragraph texts, and a page is what
  \<open>select\<close> and \<open>body\<close> answer. Of a listing page the code reads
  \<^verbatim>\<open>a_tag['href']\<close> for every \<^verbatim>\<open>a_tag\<close> in
  \<^verbatim>\<open>find_all('a', href=True)\<close>: the field \<open>hrefs\<close>, in document order.
\<close>

record element =
  find_all_p :: "string list"

record soup =
  select :: "string \<Rightarrow> element list"
  body :: "element option"
  hrefs :: "string list"

definition content_selectors :: "string list" where
  "content_selectors =
     [''article'', ''.article-body'', ''.article-content'', ''.story-body'',
      ''.post-content'', ''.entry-content'', ''.content'', ''#content'',
      ''[itemprop=\"articleBody\"]'', ''.body'']"

text \<open>
  The loop over the selectors stops at the first one that matches something and
  takes its first element; with no match the page body is used, which may be absent.
\<close>

fun first_match :: "soup \<Rightarrow> string list \<Rightarrow> element option" where
  "first_match sp [] = None"
| "first_match sp (selector # rest) =
     (case select sp selector of
        [] \<Rightarrow> first_match sp rest
      | e # _ \<Rightarrow> Some e)"

definition content_element :: "soup \<Rightarrow> element option" where
  "content_element sp =
     (case first_match sp content_selectors of
        None \<Rightarrow> body sp
      | Some e \<Rightarrow> Some e)"

definition paragraphs :: "soup \<Rightarrow> string list" where
  "paragraphs sp = (case content_element sp of None \<Rightarrow> [] | Some e \<Rightarrow> find_all_p e)"

definition content_of :: "soup \<Rightarrow> string" where
  "content_of sp = join ''\<newline>\<newline>'' (map strip (paragraphs sp))"

text \<open>
  \<^verbatim>\<open>summary = '\n\n'.join([p.text.strip() for p in paragraphs[:2]])\<close>, cut to
  497 characters plus three dots when it is longer than 500.
\<close>

definition first_two :: "string list \<Rightarrow> string" where
  "first_two ps = join ''\<newline>\<newline>'' (map strip (take 2 ps))"

definition summarize :: "string list \<Rightarrow> string" where
  "summarize ps =
     (let summary = first_two ps
      in if length summary > 500 then take 497 summary @ ''...'' else summary)"

definition summary_of :: "soup \<Rightarrow> string" where
  "summary_of sp = summarize (paragraphs sp)"

section \<open>Categorizer\<close>

text \<open>
  \<^verbatim>\<open>categorize_article(content, title)\<close>. The dictionary literal keeps its
  keys in the order written, so it is an association list; \<^verbatim>\<open>max\<close> over
  the dictionary of positive scores walks the keys in that order and keeps the first
  key whose score no later key beats.
\<close>

definition categories :: "(string \<times> string list) list" where
  "categories =
     [(''stocks'', [''stock'', ''stocks'', ''equities'', ''nasdaq'', ''dow jones'', ''nyse'', ''s&p'']),
      (''cryptocurrency'', [''bitcoin'', ''ethereum'', ''crypto'', ''blockchain'', ''token'', ''cryptocurrency'']),
      (''economy'', [''economy'', ''gdp'', ''inflation'', ''recession'', ''economic growth'', ''fed'', ''federal reserve'']),
      (''markets'', [''market'', ''trading'', ''trader'', ''bulls'', ''bears'', ''rally'', ''correction'']),
      (''business'', [''company'', ''earnings'', ''revenue'', ''profit'', ''ceo'', ''startup'', ''merger'', ''acquisition'']),
      (''personal_finance'', [''investing'', ''retirement'', ''mortgage'', ''loan'', ''credit'', ''debt'', ''saving'']),
      (''real_estate'', [''housing'', ''real estate'', ''property'', ''mortgage'', ''commercial real estate''])]"

definition full_text :: "string \<Rightarrow> string \<Rightarrow> string" where
  "full_text title content = lower (title @ '' '' @ content)"

text \<open>\<^verbatim>\<open>sum(1 for keyword in keywords if keyword.lower() in full_text)\<close>.\<close>

definition score :: "string \<Rightarrow> string list \<Rightarrow> nat" where
  "score text kws = length (filter (\<lambda>keyword. contains text (lower keyword)) kws)"

text \<open>The dictionary \<^verbatim>\<open>category_scores\<close>: only positive scores get an entry.\<close>

definition category_scores :: "string \<Rightarrow> (string \<times> nat) list" where
  "category_scores text =
     filter (\<lambda>(category, sc). sc > 0) (map (\<lambda>(category, kws). (category, score text kws)) categories)"

text \<open>
  \<^verbatim>\<open>max(d, key=d.get)\<close> on a non-empty dictionary: the running best is
  replaced only by a strictly larger score.
\<close>

fun max_entry :: "(string \<times> nat) \<Rightarrow> (string \<times> nat) list \<Rightarrow> (string \<times> nat)" where
  "max_entry best [] = best"
| "max_entry best (e # es) = max_entry (if snd e > snd best then e else best) es"

definition categorize_article :: "string \<Rightarrow> string \<Rightarrow> string" where
  "categorize_article content title =
     (case category_scores (full_text title content) of
        [] \<Rightarrow> ''general''
      | e # es \<Rightarrow> fst (max_entry e es))"

section \<open>Exceptions\<close>

text \<open>
  The exceptions of the modelled code: \<^verbatim>\<open>ValueError\<close>,
  \<^verbatim>\<open>OverflowError\<close>, and an \<^verbatim>\<open>sqlite3.Error\<close> raised by one
  of the four calls \<^verbatim>\<open>process_article\<close> makes to the store
  (\<^verbatim>\<open>connect\<close>, the \<^verbatim>\<open>SELECT\<close>, the
  \<^verbatim>\<open>INSERT\<close>, \<^verbatim>\<open>commit\<close>). A function that may raise
  returns a sum, the exception on the left.
\<close>

datatype db_call = Connect | Select | Insert | Commit

datatype py_exception = ValueError | OverflowError | SqliteError db_call

section \<open>Dates and times\<close>

text \<open>
  A \<^verbatim>\<open>datetime.datetime\<close> by its fields; the time zone is not among
  them. The datetimes that are written to the store or compared have all been given
  the zone UTC by the code before (lines 184 to 187 for the date of a page, the
  arguments of \<^verbatim>\<open>now\<close> and \<^verbatim>\<open>replace\<close> elsewhere), and
  that step is not part of the model: a \<open>datetime\<close> here is the fields after
  it. Python builds such an object only with the fields in range, which is
  \<open>valid_datetime\<close>; two of them with the same time zone compare field by
  field, most significant first.
\<close>

record datetime =
  year :: nat
  month :: nat
  day :: nat
  hour :: nat
  minute :: nat
  second :: nat
  microsecond :: nat

definition is_leap :: "nat \<Rightarrow> bool" where
  "is_leap y = (y mod 4 = 0 \<and> (y mod 100 \<noteq> 0 \<or> y mod 400 = 0))"

definition days_in_month :: "nat \<Rightarrow> nat \<Rightarrow> nat" where
  "days_in_month y m =
     (if m = 2 then (if is_leap y then 29 else 28)
      else if m = 4 \<or> m = 6 \<or> m = 9 \<or> m = 11 then 30 else 31)"

definition valid_date :: "nat \<Rightarrow> nat \<Rightarrow> nat \<Rightarrow> bool" where
  "valid_date y m d = (1 \<le> y \<and> y \<le> 9999 \<and> 1 \<le> m \<and> m \<le> 12 \<and> 1 \<le> d \<and> d \<le> days_in_month y m)"

definition valid_datetime :: "datetime \<Rightarrow> bool" where
  "valid_datetime t =
     (valid_date (year t) (month t) (day t) \<and> hour t < 24 \<and> minute t < 60 \<and> second t < 60
      \<and> microsecond t < 1000000)"

definition dt_fields :: "datetime \<Rightarrow> nat list" where
  "dt_fields t = [year t, month t, day t, hour t, minute t, second t, microsecond t]"

definition dt_le :: "datetime \<Rightarrow> datetime \<Rightarrow> bool" where
  "dt_le a b = (dt_fields a \<le> dt_fields b)"

text \<open>The same comparison at the resolution of one second, which is all a stored
  timestamp keeps.\<close>

definition dt_seconds :: "datetime \<Rightarrow> nat list" where
  "dt_seconds t = [year t, month t, day t, hour t, minute t, second t]"

text \<open>
  \<^verbatim>\<open>strftime('%Y-%m-%d %H:%M:%S')\<close>. The month, day, hour, minute and
  second are written in two decimal digits, zero-padded. The year directive is handed
  to the platform's C library: it writes four digits for a year from 1000 on, and for a
  smaller year it either pads with zeros to four digits or writes the year without
  padding (the GNU C library does the latter, so \<^verbatim>\<open>datetime(999, 1, 2)\<close>
  is written \<^verbatim>\<open>999-01-02\<close>). Which of the two the platform does is the
  argument \<open>padded\<close>.
\<close>

definition digit_char :: "nat \<Rightarrow> char" where
  "digit_char n = char_of (48 + n mod 10)"

definition dec2 :: "nat \<Rightarrow> string" where
  "dec2 n = [digit_char (n div 10), digit_char n]"

definition dec4 :: "nat \<Rightarrow> string" where
  "dec4 n = [digit_char (n div 1000), digit_char (n div 100), digit_char (n div 10), digit_char n]"

definition year_text :: "bool \<Rightarrow> nat \<Rightarrow> string" where
  "year_text padded y = (if padded then dec4 y else dropWhile (\<lambda>c. c = CHR ''0'') (dec4 y))"

definition strftime :: "bool \<Rightarrow> datetime \<Rightarrow> string" where
  "strftime padded t =
     year_text padded (year t) @ ''-'' @ dec2 (month t) @ ''-'' @ dec2 (day t) @ '' '' @
     dec2 (hour t) @ '':'' @ dec2 (minute t) @ '':'' @ dec2 (second t)"

text \<open>The shape \<^verbatim>\<open>YYYY-MM-DD HH:MM:SS\<close> of a string.\<close>

definition is_timestamp :: "string \<Rightarrow> bool" where
  "is_timestamp s =
     (length s = 19 \<and> s ! 4 = CHR ''-'' \<and> s ! 7 = CHR ''-'' \<and> s ! 10 = CHR '' '' \<and>
      s ! 13 = CHR '':'' \<and> s ! 16 = CHR '':'' \<and>
      list_all (\<lambda>i. is_digit (s ! i)) [0, 1, 2, 3, 5, 6, 8, 9, 11, 12, 14, 15, 17, 18])"

text \<open>
  \<^verbatim>\<open>datetime.strptime(s, '%Y-%m-%d')\<close>. The library turns the format into the
  regular expression
  \<^verbatim>\<open>(\d\d\d\d)-(1[0-2]|0[1-9]|[1-9])-(3[0-1]|[1-2]\d|0[1-9]|[1-9]| [1-9])\<close>,
  matches it at the start of the string, and raises \<^verbatim>\<open>ValueError\<close> when it
  does not match, when text is left over, or when the three numbers are no calendar
  date. The alternatives are tried in the order written. A month alternative that
  matches is final: the hyphen must follow, and a shorter alternative would leave a
  digit there. The result is midnight of the date; \<^verbatim>\<open>replace(tzinfo=...)\<close>
  leaves the fields as they are.
\<close>

definition digit_val :: "char \<Rightarrow> nat" where
  "digit_val c = of_char c - 48"

definition in_range :: "char \<Rightarrow> char \<Rightarrow> char \<Rightarrow> bool" where
  "in_range lo hi c = (lo \<le> c \<and> c \<le> hi)"

fun parse_year :: "string \<Rightarrow> (nat \<times> string) option" where
  "parse_year (a # b # c # d # rest) =
     (if is_digit a \<and> is_digit b \<and> is_digit c \<and> is_digit d
      then Some (1000 * digit_val a + 100 * digit_val b + 10 * digit_val c + digit_val d, rest)
      else None)"
| "parse_year _ = None"

fun parse_month :: "string \<Rightarrow> (nat \<times> string) option" where
  "parse_month [] = None"
| "parse_month [a] = (if in_range CHR ''1'' CHR ''9'' a then Some (digit_val a, []) else None)"
| "parse_month (a # b # rest) =
     (if a = CHR ''1'' \<and> in_range CHR ''0'' CHR ''2'' b then Some (10 + digit_val b, rest)
      else if a = CHR ''0'' \<and> in_range CHR ''1'' CHR ''9'' b then Some (digit_val b, rest)
      else if in_range CHR ''1'' CHR ''9'' a then Some (digit_val a, b # rest)
      else None)"

fun parse_day :: "string \<Rightarrow> (nat \<times> string) option" where
  "parse_day [] = None"
| "parse_day [a] = (if in_range CHR ''1'' CHR ''9'' a then Some (digit_val a, []) else None)"
| "parse_day (a # b # rest) =
     (if a = CHR ''3'' \<and> in_range CHR ''0'' CHR ''1'' b then Some (30 + digit_val b, rest)
      else if in_range CHR ''1'' CHR ''2'' a \<and> is_digit b then Some (10 * digit_val a + digit_val b, rest)
      else if a = CHR ''0'' \<and> in_range CHR ''1'' CHR ''9'' b then Some (digit_val b, rest)
      else if in_range CHR ''1'' CHR ''9'' a then Some (digit_val a, b # rest)
      else if a = CHR '' '' \<and> in_range CHR ''1'' CHR ''9'' b then Some (digit_val b, rest)
      else None)"

definition expect_hyphen :: "string \<Rightarrow> string option" where
  "expect_hyphen s = (case s of [] \<Rightarrow> None | c # rest \<Rightarrow> if c = CHR ''-'' then Some rest else None)"

definition strptime_ymd :: "string \<Rightarrow> py_exception + datetime" where
  "strptime_ymd s =
     (case parse_year s of
        None \<Rightarrow> Inl ValueError
      | Some (y, s1) \<Rightarrow>
     (case expect_hyphen s1 of
        None \<Rightarrow> Inl ValueError
      | Some s2 \<Rightarrow>
     (case parse_month s2 of
        None \<Rightarrow> Inl ValueError
      | Some (m, s3) \<Rightarrow>
     (case expect_hyphen s3 of
        None \<Rightarrow> Inl ValueError
      | Some s4 \<Rightarrow>
     (case parse_day s4 of
        None \<Rightarrow> Inl ValueError
      | Some (d, s5) \<Rightarrow>
          if s5 \<noteq> [] then Inl ValueError
          else if \<not> valid_date y m d then Inl ValueError
          else Inr \<lparr>year = y, month = m, day = d, hour = 0, minute = 0, second = 0,
                    microsecond = 0\<rparr>)))))"

text \<open>\<^verbatim>\<open>end_date_obj.replace(hour=23, minute=59, second=59)\<close>.\<close>

definition end_of_day :: "datetime \<Rightarrow> datetime" where
  "end_of_day t = t\<lparr>hour := 23, minute := 59, second := 59\<rparr>"

section \<open>The store\<close>

text \<open>
  \<^verbatim>\<open>setup_database\<close> creates two tables. A table is the list of its rows in
  insertion order; the \<^verbatim>\<open>AUTOINCREMENT\<close> key takes one more than the largest
  key ever given out, which the store remembers per table. Column \<^verbatim>\<open>url\<close> of
  \<^verbatim>\<open>articles\<close> and column \<^verbatim>\<open>term\<close> of \<^verbatim>\<open>search_terms\<close>
  are \<^verbatim>\<open>UNIQUE\<close>.
\<close>

record article_row =
  row_id :: nat
  row_title :: string
  row_url :: string
  row_source :: string
  row_author :: string
  row_publish_date :: string
  row_content :: string
  row_summary :: string
  row_keywords :: string
  row_retrieved_date :: string
  row_category :: string

record search_term_row =
  st_id :: nat
  st_term :: string
  st_last_search :: string

record database =
  articles :: "article_row list"
  articles_seq :: nat
  search_terms :: "search_term_row list"
  search_terms_seq :: nat

definition setup_database :: database where
  "setup_database = \<lparr>articles = [], articles_seq = 0, search_terms = [], search_terms_seq = 0\<rparr>"

text \<open>\<^verbatim>\<open>SELECT id FROM articles WHERE url=?\<close> followed by
  \<^verbatim>\<open>fetchone()\<close> being something.\<close>

definition url_exists :: "database \<Rightarrow> string \<Rightarrow> bool" where
  "url_exists db url = list_ex (\<lambda>r. row_url r = url) (articles db)"

text \<open>
  \<^verbatim>\<open>INSERT INTO articles (...) VALUES (...)\<close>: the engine refuses a second row
  with the same \<^verbatim>\<open>url\<close> (an \<^verbatim>\<open>IntegrityError\<close>), otherwise it
  appends the row under a fresh key. The row given carries no key yet.
\<close>

definition insert_article :: "database \<Rightarrow> article_row \<Rightarrow> py_exception + database" where
  "insert_article db r =
     (if url_exists db (row_url r) then Inl (SqliteError Insert)
      else Inr (db\<lparr>articles := articles db @ [r\<lparr>row_id := articles_seq db + 1\<rparr>],
                   articles_seq := articles_seq db + 1\<rparr>))"

text \<open>
  \<^verbatim>\<open>INSERT OR REPLACE INTO search_terms (term, last_search) VALUES (?, ?)\<close>: a
  row with the same term is deleted first, then the new row is appended under a fresh
  key.
\<close>

definition replace_search_term :: "database \<Rightarrow> string \<Rightarrow> string \<Rightarrow> database" where
  "replace_search_term db term stamp =
     db\<lparr>search_terms :=
          filter (\<lambda>t. st_term t \<noteq> term) (search_terms db) @
          [\<lparr>st_id = search_terms_seq db + 1, st_term = term, st_last_search = stamp\<rparr>],
        search_terms_seq := search_terms_seq db + 1\<rparr>"

text \<open>
  \<^verbatim>\<open>ORDER BY column DESC\<close> on a text column: the rows sorted by the column's
  byte order, largest first. SQL leaves the order of rows with equal keys open; the
  model keeps them in table order.
\<close>

definition order_by_desc :: "('a \<Rightarrow> string) \<Rightarrow> 'a list \<Rightarrow> 'a list" where
  "order_by_desc col rows = rev (sort_key col (rev rows))"

section \<open>Processing one article\<close>

text \<open>
  What \<^verbatim>\<open>extract_article_content\<close> returns on success: the dictionary
  \<^verbatim>\<open>article_data\<close> (its entry \<^verbatim>\<open>'keywords'\<close>, the
  comma-joined list, is the field \<open>keywords_csv\<close>). On a failed fetch or any
  exception inside it the method returns \<^verbatim>\<open>None\<close>.
\<close>

record article_data =
  title :: string
  author :: string
  publish_date :: datetime
  content :: string
  summary :: string
  keywords_csv :: string

text \<open>
  \<^verbatim>\<open>process_article(url, source, date_range)\<close>. What the method reaches
  outside itself the model takes as arguments: the store (each of the
  four \<^verbatim>\<open>sqlite3\<close> calls may raise, \<open>raises\<close> says which do), the page
  (\<open>extracted\<close> is what \<^verbatim>\<open>extract_article_content(url)\<close> returns),
  the clock (\<open>now\<close>) and the platform that writes the timestamps
  (\<open>padded\<close>). The connection is opened and the duplicate check is run
  before the \<^verbatim>\<open>try\<close> block; the insert and the commit are inside it, and its
  handler closes the connection without committing and returns \<^verbatim>\<open>False\<close>.
  The result is the exception that leaves the method, or the Boolean returned together
  with the committed store.
\<close>

definition process_article ::
  "bool \<Rightarrow> (db_call \<Rightarrow> bool) \<Rightarrow> article_data option \<Rightarrow> datetime \<Rightarrow> database \<Rightarrow> string \<Rightarrow> string \<Rightarrow>
   (datetime \<times> datetime) option \<Rightarrow> py_exception + (bool \<times> database)" where
  "process_article padded raises extracted now db url source date_range =
     (if raises Connect then Inl (SqliteError Connect)
      else if raises Select then Inl (SqliteError Select)
      else if url_exists db url then Inr (False, db)
      else
        (case extracted of
           None \<Rightarrow> Inr (False, db)
         | Some data \<Rightarrow>
             if (case date_range of
                   None \<Rightarrow> False
                 | Some (start_date, end_date) \<Rightarrow>
                     \<not> (dt_le start_date (publish_date data) \<and> dt_le (publish_date data) end_date))
             then Inr (False, db)
             else
               (case (if raises Insert then Inl (SqliteError Insert)
                      else insert_article db
                        \<lparr>row_id = 0,
                         row_title = title data,
                         row_url = url,
                         row_source = source,
                         row_author = author data,
                         row_publish_date = strftime padded (publish_date data),
                         row_content = content data,
                         row_summary = summary data,
                         row_keywords = keywords_csv data,
                         row_retrieved_date = strftime padded now,
                         row_category = categorize_article (content data) (title data)\<rparr>) of
                  Inl e \<Rightarrow> Inr (False, db)
                | Inr db' \<Rightarrow> if raises Commit then Inr (False, db) else Inr (True, db'))))"

text \<open>The date filter of \<^verbatim>\<open>process_article\<close> as a predicate: no range, or
  \<open>start \<le> publish date \<le> end\<close>.\<close>

definition passes_filter :: "(datetime \<times> datetime) option \<Rightarrow> datetime \<Rightarrow> bool" where
  "passes_filter date_range t =
     (case date_range of None \<Rightarrow> True | Some (start_date, end_date) \<Rightarrow> dt_le start_date t \<and> dt_le t end_date)"

section \<open>Queries\<close>

text \<open>
  The queries are modelled on a store that answers. The columns a query selects are a
  tuple, as \<^verbatim>\<open>fetchall()\<close> returns them. \<^verbatim>\<open>search_by_term\<close>
  reads the clock, the argument \<open>clock\<close>, and returns its rows together with the
  store it leaves.
\<close>

text \<open>
  SQLite's \<^verbatim>\<open>text LIKE pattern\<close> with no \<^verbatim>\<open>ESCAPE\<close>: in the
  pattern a percent sign stands for any run of characters, an underscore for any single
  character, and every other character for itself, the letters A to Z without regard
  to case (SQLite folds these 26 letters only).
\<close>

definition sqlite_lower :: "char \<Rightarrow> char" where
  "sqlite_lower c =
     (if CHR ''A'' \<le> c \<and> c \<le> CHR ''Z'' then char_of (of_char c + (32::nat)) else c)"

fun like :: "string \<Rightarrow> string \<Rightarrow> bool" where
  "like [] s = (s = [])"
| "like (p # ps) [] = (p = CHR ''%'' \<and> like ps [])"
| "like (p # ps) (c # cs) =
     (if p = CHR ''%'' then like ps (c # cs) \<or> like (p # ps) cs
      else if p = CHR ''_'' then like ps cs
      else sqlite_lower p = sqlite_lower c \<and> like ps cs)"

definition term_matches :: "string \<Rightarrow> article_row \<Rightarrow> bool" where
  "term_matches pat r = (like pat (row_title r) \<or> like pat (row_content r) \<or> like pat (row_summary r))"

definition search_by_term ::
  "bool \<Rightarrow> datetime \<Rightarrow> database \<Rightarrow> string \<Rightarrow>
   (nat \<times> string \<times> string \<times> string \<times> string \<times> string) list \<times> database" where
  "search_by_term padded clock db term =
     (let now = strftime padded clock;
          db' = replace_search_term db term now;
          results =
            map (\<lambda>r. (row_id r, row_title r, row_url r, row_source r, row_publish_date r, row_summary r))
              (order_by_desc row_publish_date
                 (filter (term_matches (''%'' @ term @ ''%'')) (articles db')))
      in (results, db'))"

text \<open>
  \<^verbatim>\<open>get_articles_by_date_range(start_date, end_date)\<close>. The rows the statement
  selects, in its order, are \<open>select_date_range\<close>; the method returns seven columns
  of each, and the empty list when either argument makes \<^verbatim>\<open>strptime\<close>
  raise \<^verbatim>\<open>ValueError\<close>.
\<close>

definition select_date_range :: "database \<Rightarrow> string \<Rightarrow> string \<Rightarrow> article_row list" where
  "select_date_range db start_date_str end_date_str =
     order_by_desc row_publish_date
       (filter (\<lambda>r. row_publish_date r \<ge> start_date_str \<and> row_publish_date r \<le> end_date_str)
          (articles db))"

definition columns7 ::
  "article_row \<Rightarrow> nat \<times> string \<times> string \<times> string \<times> string \<times> string \<times> string" where
  "columns7 r =
     (row_id r, row_title r, row_url r, row_source r, row_publish_date r, row_summary r, row_category r)"

definition get_articles_by_date_range ::
  "bool \<Rightarrow> database \<Rightarrow> string \<Rightarrow> string \<Rightarrow>
   (nat \<times> string \<times> string \<times> string \<times> string \<times> string \<times> string) list" where
  "get_articles_by_date_range padded db start_date end_date =
     (case strptime_ymd start_date of
        Inl e \<Rightarrow> []
      | Inr start_date_obj \<Rightarrow>
          (case strptime_ymd end_date of
             Inl e \<Rightarrow> []
           | Inr end_date_obj \<Rightarrow>
               map columns7
                 (select_date_range db (strftime padded start_date_obj)
                    (strftime padded (end_of_day end_date_obj)))))"

section \<open>Link extraction\<close>










section \<open>Relative times\<close>

text \<open>
  \<^verbatim>\<open>parse_relative_time(text)\<close> computes with the clock:
  \<^verbatim>\<open>now - timedelta(...)\<close>. For this arithmetic a UTC datetime is the number
  of microseconds since 0001-01-01 00:00:00, the first instant the type has; the last
  one is the end of the year 9999. A \<^verbatim>\<open>timedelta\<close> is a number of
  microseconds, of at most 999999999 days; building a longer one, or leaving the range
  of datetimes by the subtraction, raises \<^verbatim>\<open>OverflowError\<close>. The clock is
  the argument \<open>now\<close>.
\<close>

definition us_per_day :: int where
  "us_per_day = 86400000000"

definition max_instant :: int where
  "max_instant = 3652059 * us_per_day"

definition timedelta :: "int \<Rightarrow> int \<Rightarrow> int \<Rightarrow> py_exception + int" where
  "timedelta days hours minutes =
     (let us = days * us_per_day + hours * 3600000000 + minutes * 60000000
      in if \<bar>us div us_per_day\<bar> > 999999999 then Inl OverflowError else Inr us)"

definition datetime_sub :: "int \<Rightarrow> int \<Rightarrow> py_exception + int" where
  "datetime_sub t delta =
     (let r = t - delta in if 0 \<le> r \<and> r < max_instant then Inr r else Inl OverflowError)"

text \<open>
  \<^verbatim>\<open>re.search(r'(\d+)\s*([mhdy])', text)\<close>: the leftmost position where the
  pattern matches. At a position it matches exactly when a run of digits starts there
  and, after it and any whitespace, one of the four letters stands: giving back digits
  or whitespace cannot help, since the character then next is a digit or a space and no
  letter. The groups are the whole run of digits and the letter.
\<close>

definition is_unit :: "char \<Rightarrow> bool" where
  "is_unit c = (c = CHR ''m'' \<or> c = CHR ''h'' \<or> c = CHR ''d'' \<or> c = CHR ''y'')"

definition match_here :: "string \<Rightarrow> (string \<times> char) option" where
  "match_here s =
     (if takeWhile is_digit s = [] then None
      else (case dropWhile is_space (dropWhile is_digit s) of
              [] \<Rightarrow> None
            | u # _ \<Rightarrow> if is_unit u then Some (takeWhile is_digit s, u) else None))"

fun re_search :: "string \<Rightarrow> (string \<times> char) option" where
  "re_search [] = None"
| "re_search (c # cs) =
     (case match_here (c # cs) of
        Some m \<Rightarrow> Some m
      | None \<Rightarrow> re_search cs)"

text \<open>
  \<^verbatim>\<open>int(m.group(1))\<close> on a string of digits: the number it denotes, and
  \<^verbatim>\<open>ValueError\<close> for a string of more than 4300 digits, the interpreter's
  limit on the conversion (\<^verbatim>\<open>sys.get_int_max_str_digits()\<close>, leading
  zeros counted).
\<close>

definition int_of_digits :: "string \<Rightarrow> int" where
  "int_of_digits ds = foldl (\<lambda>n c. 10 * n + int (digit_val c)) 0 ds"

definition int_max_str_digits :: nat where
  "int_max_str_digits = 4300"

definition py_int :: "string \<Rightarrow> py_exception + int" where
  "py_int ds = (if length ds > int_max_str_digits then Inl ValueError else Inr (int_of_digits ds))"

definition minus_delta :: "int \<Rightarrow> py_exception + int \<Rightarrow> py_exception + int" where
  "minus_delta now td = (case td of Inl e \<Rightarrow> Inl e | Inr delta \<Rightarrow> datetime_sub now delta)"

definition seconds_or_fail :: "int \<Rightarrow> string \<Rightarrow> py_exception + int" where
  "seconds_or_fail now text =
     (if contains text ''a few seconds ago'' \<or> contains text ''just now'' then Inr now
      else Inl ValueError)"

definition parse_relative_time :: "int \<Rightarrow> string \<Rightarrow> py_exception + int" where
  "parse_relative_time now text0 =
     (let text = strip (lower text0)
      in case re_search text of
           Some (digits, unit) \<Rightarrow>
             (case py_int digits of
                Inl e \<Rightarrow> Inl e
              | Inr v \<Rightarrow>
                  if unit = CHR ''m'' then minus_delta now (timedelta 0 0 v)
                  else if unit = CHR ''h'' then minus_delta now (timedelta 0 v 0)
                  else if unit = CHR ''d'' then minus_delta now (timedelta v 0 0)
                  else if unit = CHR ''y'' then minus_delta now (timedelta (365 * v) 0 0)
                  else seconds_or_fail now text)
         | None \<Rightarrow> seconds_or_fail now text)"

text \<open>The spec's \<open>duration(n, unit)\<close>, in microseconds.\<close>

definition spec_duration :: "int \<Rightarrow> char \<Rightarrow> int" where
  "spec_duration n u =
     (if u = CHR ''m'' then n * 60000000
      else if u = CHR ''h'' then n * 3600000000
      else if u = CHR ''d'' then n * us_per_day
      else 365 * n * us_per_day)"

text \<open>No match of the pattern starts inside \<open>pre\<close> when \<open>rest\<close> follows it.\<close>

fun no_earlier_match :: "string \<Rightarrow> string \<Rightarrow> bool" where
  "no_earlier_match [] rest = True"
| "no_earlier_match (c # pre) rest = (match_here (c # pre @ rest) = None \<and> no_earlier_match pre rest)"

section \<open>Sample data\<close>

text \<open>A clock reading, an extracted page and a link, used to run the definitions.\<close>

definition sample_clock :: datetime where
  "sample_clock = \<lparr>year = 2025, month = 3, day = 14, hour = 9, minute = 26, second = 53,
                     microsecond = 589793\<rparr>"

definition sample_page :: article_data where
  "sample_page =
     \<lparr>title = ''Fed holds rates'', author = ''Unknown'',
      publish_date = \<lparr>year = 2025, month = 3, day = 14, hour = 8, minute = 0, second = 0,
                       microsecond = 0\<rparr>,
      content = ''Top 5 stocks to watch.'', summary = ''Top 5 stocks to watch.'',
      keywords_csv = []\<rparr>"

definition sample_url :: string where
  "sample_url = ''https://www.cnbc.com/2025/03/14/fed-holds-rates.html''"



text \<open>The sample clock as an instant: 2025-03-14 09:26:53.589793 UTC, in microseconds
  since 0001-01-01.\<close>

definition sample_now :: int where
  "sample_now = 63877541213589793"

text \<open>A page whose date was parsed to the year 999, and the store after the sample
  page was processed on a platform that does not pad the year.\<close>

definition old_page :: article_data where
  "old_page =
     sample_page\<lparr>publish_date := \<lparr>year = 999, month = 1, day = 2, hour = 3, minute = 4, second = 5,
                                      microsecond = 0\<rparr>\<rparr>"

definition sample_db :: database where
  "sample_db =
     snd (projr (process_article False (\<lambda>c. False) (Some sample_page) sample_clock setup_database
                   sample_url ''CNBC'' None))"

text \<open>
  Three pages for the summary. The first has its text in the second selector's
  element, three paragraphs, the first with spaces around it; its body holds other
  paragraphs. The second has no element for any selector and one paragraph in the
  body: 499 letters and two no-break spaces. The third, likewise, has one paragraph of
  501 letters.
\<close>

definition sample_article :: soup where
  "sample_article =
     \<lparr>select = (\<lambda>selector. if selector = ''.article-body''
                 then [\<lparr>find_all_p = [''  The Fed held rates. '', ''Stocks rose.'', ''More follows.'']\<rparr>]
                 else []),
      body = Some \<lparr>find_all_p = [''Menu'', ''The Fed held rates.'']\<rparr>,
      hrefs = []\<rparr>"

definition padded_paragraph :: soup where
  "padded_paragraph =
     \<lparr>select = (\<lambda>selector. []),
      body = Some \<lparr>find_all_p = [replicate 499 CHR ''a'' @ [CHR 0xA0, CHR 0xA0]]\<rparr>,
      hrefs = []\<rparr>"

definition long_paragraph :: soup where
  "long_paragraph =
     \<lparr>select = (\<lambda>selector. []),
      body = Some \<lparr>find_all_p = [replicate 501 CHR ''a'']\<rparr>,
      hrefs = []\<rparr>"

section \<open>Properties of the summary\<close>

lemma first_match_hit:
  "i < length sels \<Longrightarrow> \<forall>j<i. select sp (sels ! j) = [] \<Longrightarrow> select sp (sels ! i) = e # es \<Longrightarrow>
     first_match sp sels = Some e"
proof (induction sels arbitrary: i)
  case Nil
  then show ?case by simp
next
  case (Cons s sels)
  show ?case
  proof (cases i)
    case 0
    with Cons.prems show ?thesis by simp
  next
    case (Suc k)
    with Cons.prems have "select sp s = []" by auto
    moreover from Suc Cons.prems have "first_match sp sels = Some e"
      by (intro Cons.IH [of k]) auto
    ultimately show ?thesis by simp
  qed
qed

lemma first_match_none:
  "\<forall>s\<in>set sels. select sp s = [] \<Longrightarrow> first_match sp sels = None"
  by (induction sels) simp_all

lemma rev_dropWhile_split:
  "xs = rev (dropWhile P (rev xs)) @ rev (takeWhile P (rev xs))"
proof -
  have "rev (takeWhile P (rev xs) @ dropWhile P (rev xs)) = xs"
    by (simp only: takeWhile_dropWhile_id rev_rev_ident)
  then show ?thesis by (simp only: rev_append)
qed

lemma strip_split:
  "\<exists>l r. p = l @ strip p @ r \<and> list_all is_space l \<and> list_all is_space r"
proof -
  let ?m = "dropWhile is_space p"
  have m: "?m = strip p @ rev (takeWhile is_space (rev ?m))"
    unfolding strip_def by (rule rev_dropWhile_split)
  have "p = takeWhile is_space p @ ?m" by simp
  with m have "p = takeWhile is_space p @ strip p @ rev (takeWhile is_space (rev ?m))" by simp
  moreover have "list_all is_space (takeWhile is_space p)"
    by (simp add: list_all_iff) (meson set_takeWhileD)
  moreover have "list_all is_space (rev (takeWhile is_space (rev ?m)))"
    by (simp add: list_all_iff) (meson set_takeWhileD)
  ultimately show ?thesis by blast
qed

lemma strip_ends:
  "strip p = [] \<or> (\<not> is_space (hd (strip p)) \<and> \<not> is_space (last (strip p)))"
proof (cases "strip p = []")
  case True
  then show ?thesis by simp
next
  case False
  let ?m = "dropWhile is_space p"
  have ne: "dropWhile is_space (rev ?m) \<noteq> []" using False by (simp add: strip_def)
  then have l: "\<not> is_space (last (strip p))"
    using hd_dropWhile [OF ne] by (simp add: strip_def last_rev)
  have m: "?m = strip p @ rev (takeWhile is_space (rev ?m))"
    unfolding strip_def by (rule rev_dropWhile_split)
  have "?m \<noteq> []"
  proof
    assume "?m = []"
    then have "strip p = []" by (simp only: strip_def rev.simps dropWhile.simps)
    with False show False ..
  qed
  then have "\<not> is_space (hd ?m)" by (rule hd_dropWhile)
  moreover from m False have "hd ?m = hd (strip p)" by (metis hd_append2)
  ultimately show ?thesis using l by simp
qed

lemma is_space_codes:
  "is_space c \<longleftrightarrow> (of_char c :: nat) \<in> {9, 10, 11, 12, 13, 28, 29, 30, 31, 32, 133, 160}"
  by (auto simp: is_space_def Let_def)


lemma strip_replicate:
  assumes "\<not> is_space c" and "list_all is_space ws"
  shows "strip (replicate n c @ ws) = replicate n c"
proof (cases n)
  case 0
  from assms(2) have "dropWhile is_space ws = []" by (simp add: list_all_iff)
  with 0 show ?thesis by (simp only: strip_def replicate_0 append_Nil rev.simps dropWhile.simps)
next
  case (Suc k)
  with assms(1) have a: "dropWhile is_space (replicate n c @ ws) = replicate n c @ ws" by simp
  have b: "dropWhile is_space (rev ws @ replicate n c) = replicate n c"
    using assms Suc by (simp add: dropWhile_append list_all_iff)
  show ?thesis by (simp add: strip_def a b)
qed

text \<open>
  C6. The paragraphs are those of the first element of the first selector, in the
  order of the list, that matches anything on the page, and those of the page body
  when no selector matches. The summary is made of the first two of them only: each
  stripped of the whitespace at its ends, the two joined by an empty line. When that
  text is longer than 500 characters the summary is its first 497 characters followed
  by the three-dot ellipsis, otherwise it is that text; so it never has more than 500
  characters. Stripping removes the longest runs of whitespace at either end, and the
  whitespace characters are those of the codes listed.
\<close>

theorem summary_cap:
  "content_selectors =
     [''article'', ''.article-body'', ''.article-content'', ''.story-body'',
      ''.post-content'', ''.entry-content'', ''.content'', ''#content'',
      ''[itemprop=\"articleBody\"]'', ''.body'']
   \<and> (\<forall>i e es. i < length content_selectors
          \<and> (\<forall>j<i. select sp (content_selectors ! j) = [])
          \<and> select sp (content_selectors ! i) = e # es
        \<longrightarrow> paragraphs sp = find_all_p e)
   \<and> ((\<forall>s\<in>set content_selectors. select sp s = [])
        \<longrightarrow> paragraphs sp = (case body sp of None \<Rightarrow> [] | Some b \<Rightarrow> find_all_p b))
   \<and> (paragraphs sp = [] \<longrightarrow> summary_of sp = [])
   \<and> (\<forall>p. paragraphs sp = [p]
        \<longrightarrow> summary_of sp = (if length (strip p) > 500 then take 497 (strip p) @ ''...'' else strip p))
   \<and> (\<forall>p q rest. paragraphs sp = p # q # rest
        \<longrightarrow> summary_of sp =
              (if length (strip p @ ''\<newline>\<newline>'' @ strip q) > 500
               then take 497 (strip p @ ''\<newline>\<newline>'' @ strip q) @ ''...''
               else strip p @ ''\<newline>\<newline>'' @ strip q))
   \<and> length (summary_of sp) \<le> 500
   \<and> (\<forall>p. \<exists>l r. p = l @ strip p @ r \<and> list_all is_space l \<and> list_all is_space r
          \<and> (strip p = [] \<or> (\<not> is_space (hd (strip p)) \<and> \<not> is_space (last (strip p)))))
   \<and> (\<forall>c. is_space c \<longleftrightarrow>
          (of_char c :: nat) \<in> {9, 10, 11, 12, 13, 28, 29, 30, 31, 32, 133, 160})"
proof -
  have sel: "content_selectors =
     [''article'', ''.article-body'', ''.article-content'', ''.story-body'',
      ''.post-content'', ''.entry-content'', ''.content'', ''#content'',
      ''[itemprop=\"articleBody\"]'', ''.body'']"
    by (rule content_selectors_def)
  have hit: "\<forall>i e es. i < length content_selectors
          \<and> (\<forall>j<i. select sp (content_selectors ! j) = [])
          \<and> select sp (content_selectors ! i) = e # es
        \<longrightarrow> paragraphs sp = find_all_p e"
    by (auto simp: paragraphs_def content_element_def dest!: first_match_hit)
  have miss: "(\<forall>s\<in>set content_selectors. select sp s = [])
        \<longrightarrow> paragraphs sp = (case body sp of None \<Rightarrow> [] | Some b \<Rightarrow> find_all_p b)"
    by (auto simp: paragraphs_def content_element_def dest!: first_match_none)
  have none: "paragraphs sp = [] \<longrightarrow> summary_of sp = []"
    by (simp add: summary_of_def summarize_def first_two_def)
  have one: "\<forall>p. paragraphs sp = [p]
        \<longrightarrow> summary_of sp = (if length (strip p) > 500 then take 497 (strip p) @ ''...'' else strip p)"
    by (simp add: summary_of_def summarize_def first_two_def)
  have two: "\<forall>p q rest. paragraphs sp = p # q # rest
        \<longrightarrow> summary_of sp =
              (if length (strip p @ ''\<newline>\<newline>'' @ strip q) > 500
               then take 497 (strip p @ ''\<newline>\<newline>'' @ strip q) @ ''...''
               else strip p @ ''\<newline>\<newline>'' @ strip q)"
    by (simp add: summary_of_def summarize_def first_two_def)
  have cap: "length (summary_of sp) \<le> 500"
    by (simp add: summary_of_def summarize_def Let_def)
  have st: "\<forall>p. \<exists>l r. p = l @ strip p @ r \<and> list_all is_space l \<and> list_all is_space r
          \<and> (strip p = [] \<or> (\<not> is_space (hd (strip p)) \<and> \<not> is_space (last (strip p))))"
    using strip_split strip_ends by blast
  have sp: "\<forall>c. is_space c \<longleftrightarrow>
          (of_char c :: nat) \<in> {9, 10, 11, 12, 13, 28, 29, 30, 31, 32, 133, 160}"
    using is_space_codes by blast
  from sel hit miss none one two cap st sp show ?thesis by (intro conjI)
qed

theorem summary_cap_witness:
  "summary_of sample_article = ''The Fed held rates.\<newline>\<newline>Stocks rose.''
   \<and> summary_of padded_paragraph = replicate 499 CHR ''a''
   \<and> summary_of long_paragraph = replicate 497 CHR ''a'' @ ''...''"
proof -
  have a: "paragraphs sample_article = [''  The Fed held rates. '', ''Stocks rose.'', ''More follows.'']"
    using summary_cap [of sample_article, THEN conjunct2, THEN conjunct1, rule_format,
        of 1 "\<lparr>find_all_p = [''  The Fed held rates. '', ''Stocks rose.'', ''More follows.'']\<rparr>" "[]"]
    by (simp add: content_selectors_def sample_article_def)
  have s1: "strip ''  The Fed held rates. '' = ''The Fed held rates.''"
    by (simp add: strip_def is_space_def)
  have s2: "strip ''Stocks rose.'' = ''Stocks rose.''"
    by (simp add: strip_def is_space_def)
  have first: "summary_of sample_article = ''The Fed held rates.\<newline>\<newline>Stocks rose.''"
    using summary_cap [of sample_article, THEN conjunct2, THEN conjunct2, THEN conjunct2,
        THEN conjunct2, THEN conjunct2, THEN conjunct1, rule_format, OF a]
    by (simp add: s1 s2)
  have sp: "is_space (CHR 0xA0)" "\<not> is_space CHR ''a''"
    by (simp_all add: is_space_def)
  have b: "paragraphs padded_paragraph = [replicate 499 CHR ''a'' @ [CHR 0xA0, CHR 0xA0]]"
    using summary_cap [of padded_paragraph, THEN conjunct2, THEN conjunct2, THEN conjunct1]
    by (simp add: padded_paragraph_def)
  have s3: "strip (replicate 499 CHR ''a'' @ [CHR 0xA0, CHR 0xA0]) = replicate 499 CHR ''a''"
    using sp by (intro strip_replicate) simp_all
  have second: "summary_of padded_paragraph = replicate 499 CHR ''a''"
    using summary_cap [of padded_paragraph, THEN conjunct2, THEN conjunct2, THEN conjunct2,
        THEN conjunct2, THEN conjunct1, rule_format, OF b]
    by (simp add: s3)
  have c: "paragraphs long_paragraph = [replicate 501 CHR ''a'']"
    using summary_cap [of long_paragraph, THEN conjunct2, THEN conjunct2, THEN conjunct1]
    by (simp add: long_paragraph_def)
  have s4: "strip (replicate 501 CHR ''a'') = replicate 501 CHR ''a''"
    using sp strip_replicate [of "CHR ''a''" "[]" 501] by simp
  have third: "summary_of long_paragraph = replicate 497 CHR ''a'' @ ''...''"
    using summary_cap [of long_paragraph, THEN conjunct2, THEN conjunct2, THEN conjunct2,
        THEN conjunct2, THEN conjunct1, rule_format, OF c]
    by (simp add: s4)
  from first second third show ?thesis by (intro conjI)
qed

section \<open>Properties of processing one article\<close>

lemma insert_article_Inr:
  "insert_article db r = Inr db' \<Longrightarrow>
     \<not> url_exists db (row_url r) \<and> url_exists db' (row_url r) \<and>
     articles db' = articles db @ [r\<lparr>row_id := articles_seq db + 1\<rparr>] \<and>
     search_terms db' = search_terms db"
  by (auto simp: insert_article_def url_exists_def split: if_splits)






text \<open>
  C8. When the store raises while the duplicate check runs, no \<open>False\<close> is
  returned: the call stands before the \<^verbatim>\<open>try\<close> block, as opening the
  connection does, and the exception leaves \<^verbatim>\<open>process_article\<close>.
\<close>

theorem process_article_storage_error_escapes:
  "process_article True (\<lambda>c. c = Select) (Some sample_page) sample_clock setup_database sample_url ''CNBC'' None
     = Inl (SqliteError Select)
   \<and> process_article True (\<lambda>c. c = Select) (Some sample_page) sample_clock setup_database sample_url ''CNBC'' None
     \<noteq> Inr (False, setup_database)"
  by (simp add: process_article_def)

text \<open>
  C8, amended. Processing one article ends in one of three ways. It returns \<open>True\<close>,
  and then the articles table has exactly one more row, for this URL, which was not
  stored before, and the search terms are untouched. It returns \<open>False\<close> with the
  store unchanged: so on a stored URL, a failed fetch or extraction, a publish time
  outside the range, and an error raised by the insert or the commit. Or the store
  raises when the connection is opened or the duplicate check runs, and that exception
  leaves the method; nothing has been written then.
\<close>

theorem process_article_atomic:
  "(case process_article padded raises extracted now db url source date_range of
      Inl e \<Rightarrow> (raises Connect \<and> e = SqliteError Connect)
              \<or> (\<not> raises Connect \<and> raises Select \<and> e = SqliteError Select)
    | Inr (saved, db') \<Rightarrow>
        \<not> raises Connect \<and> \<not> raises Select \<and>
        (if saved
         then \<not> url_exists db url \<and> (\<exists>r. articles db' = articles db @ [r] \<and> row_url r = url)
              \<and> search_terms db' = search_terms db
         else db' = db))
   \<and> (\<not> raises Connect \<and> \<not> raises Select \<and>
        (url_exists db url \<or> extracted = None
         \<or> (\<exists>data. extracted = Some data \<and> \<not> passes_filter date_range (publish_date data))
         \<or> raises Insert \<or> raises Commit)
       \<longrightarrow> process_article padded raises extracted now db url source date_range = Inr (False, db))"
proof (intro conjI impI)
  show "case process_article padded raises extracted now db url source date_range of
      Inl e \<Rightarrow> (raises Connect \<and> e = SqliteError Connect)
              \<or> (\<not> raises Connect \<and> raises Select \<and> e = SqliteError Select)
    | Inr (saved, db') \<Rightarrow>
        \<not> raises Connect \<and> \<not> raises Select \<and>
        (if saved
         then \<not> url_exists db url \<and> (\<exists>r. articles db' = articles db @ [r] \<and> row_url r = url)
              \<and> search_terms db' = search_terms db
         else db' = db)"
    by (auto simp: process_article_def split: option.splits sum.splits dest!: insert_article_Inr)
next
  assume "\<not> raises Connect \<and> \<not> raises Select \<and>
        (url_exists db url \<or> extracted = None
         \<or> (\<exists>data. extracted = Some data \<and> \<not> passes_filter date_range (publish_date data))
         \<or> raises Insert \<or> raises Commit)"
  then show "process_article padded raises extracted now db url source date_range = Inr (False, db)"
    by (auto simp: process_article_def passes_filter_def split: option.splits sum.splits)
qed

theorem process_article_atomic_witness:
  "(\<exists>r. articles (snd (projr (process_article True (\<lambda>c. False) (Some sample_page) sample_clock setup_database
            sample_url ''CNBC'' None))) = [r] \<and> row_url r = sample_url)
   \<and> process_article True (\<lambda>c. c = Commit) (Some sample_page) sample_clock setup_database sample_url ''CNBC'' None
       = Inr (False, setup_database)"
  using process_article_atomic [where padded = True and raises = "\<lambda>c. False" and db = setup_database and url = sample_url
      and extracted = "Some sample_page" and date_range = None
      and now = sample_clock and source = "''CNBC''"]
    process_article_atomic [where padded = True and raises = "\<lambda>c. c = Commit" and db = setup_database and url = sample_url
      and extracted = "Some sample_page" and date_range = None
      and now = sample_clock and source = "''CNBC''"]
  by (simp add: process_article_def insert_article_def url_exists_def setup_database_def)

section \<open>Properties of the categorizer\<close>

lemma max_entry_split:
  "\<exists>pre post. e # es = pre @ max_entry e es # post
     \<and> (\<forall>y\<in>set pre. snd y < snd (max_entry e es))
     \<and> (\<forall>y\<in>set post. snd y \<le> snd (max_entry e es))"
proof (induction es arbitrary: e)
  case Nil
  show ?case by (intro exI [of _ "[]"]) simp
next
  case (Cons y ys)
  show ?case
  proof (cases "snd y > snd e")
    case True
    from Cons.IH [of y] obtain pre post where
      sp: "y # ys = pre @ max_entry y ys # post"
      and lt: "\<forall>z\<in>set pre. snd z < snd (max_entry y ys)"
      and le: "\<forall>z\<in>set post. snd z \<le> snd (max_entry y ys)"
      by blast
    have "snd y \<le> snd (max_entry y ys)"
      using sp lt by (cases pre) auto
    with True have lt_e: "snd e < snd (max_entry y ys)" by simp
    from True have me: "max_entry e (y # ys) = max_entry y ys" by simp
    have "e # y # ys = (e # pre) @ max_entry y ys # post
        \<and> (\<forall>z\<in>set (e # pre). snd z < snd (max_entry y ys))
        \<and> (\<forall>z\<in>set post. snd z \<le> snd (max_entry y ys))"
      using sp lt le lt_e by simp
    then show ?thesis unfolding me by blast
  next
    case False
    from Cons.IH [of e] obtain pre post where
      sp: "e # ys = pre @ max_entry e ys # post"
      and lt: "\<forall>z\<in>set pre. snd z < snd (max_entry e ys)"
      and le: "\<forall>z\<in>set post. snd z \<le> snd (max_entry e ys)"
      by blast
    from False have me: "max_entry e (y # ys) = max_entry e ys" by simp
    show ?thesis
    proof (cases pre)
      case Nil
      with sp have x: "max_entry e ys = e" and p: "post = ys"
        by (metis append_Nil list.inject)+
      have "e # y # ys = [] @ max_entry e ys # (y # post)
          \<and> (\<forall>z\<in>set []. snd z < snd (max_entry e ys))
          \<and> (\<forall>z\<in>set (y # post). snd z \<le> snd (max_entry e ys))"
        using x p le False by simp
      then show ?thesis unfolding me by blast
    next
      case (Cons p pre')
      with sp lt have pe: "p = e" and ys: "ys = pre' @ max_entry e ys # post"
        and lt_e: "snd e < snd (max_entry e ys)" by auto
      with False have lt_y: "snd y < snd (max_entry e ys)" by simp
      have "e # y # ys = (e # y # pre') @ max_entry e ys # post
          \<and> (\<forall>z\<in>set (e # y # pre'). snd z < snd (max_entry e ys))
          \<and> (\<forall>z\<in>set post. snd z \<le> snd (max_entry e ys))"
        using ys lt le lt_e lt_y Cons by auto
      then show ?thesis unfolding me by blast
    qed
  qed
qed

lemma filter_eq_appendD:
  "filter P xs = ys @ zs \<Longrightarrow> \<exists>us vs. xs = us @ vs \<and> filter P us = ys \<and> filter P vs = zs"
proof (induction ys arbitrary: xs)
  case Nil
  then show ?case by (intro exI [of _ "[]"] exI [of _ xs]) simp
next
  case (Cons y ys)
  then have "filter P xs = y # (ys @ zs)" by simp
  then obtain us vs where xs: "xs = us @ y # vs" and no: "\<forall>u\<in>set us. \<not> P u" and py: "P y"
    and rest: "ys @ zs = filter P vs"
    by (auto dest: filter_eq_ConsD)
  from Cons.IH [of vs] rest obtain us' vs' where
    vs: "vs = us' @ vs'" and a: "filter P us' = ys" and b: "filter P vs' = zs"
    by auto
  have "xs = (us @ y # us') @ vs' \<and> filter P (us @ y # us') = y # ys \<and> filter P vs' = zs"
    using xs vs a b no py by simp
  then show ?case by blast
qed

lemma first_max_through_filter:
  fixes f :: "'c \<Rightarrow> 'a \<times> nat"
  assumes "filter (\<lambda>p. 0 < snd p) (map f cats) = pre @ x # post"
    and "\<forall>y\<in>set pre. snd y < snd x"
    and "\<forall>y\<in>set post. snd y \<le> snd x"
  shows "\<exists>before c after. cats = before @ c # after \<and> f c = x \<and> 0 < snd x
     \<and> (\<forall>d\<in>set before. snd (f d) < snd x)
     \<and> (\<forall>d\<in>set after. snd (f d) \<le> snd x)"
proof -
  let ?P = "\<lambda>p::'a \<times> nat. 0 < snd p"
  from filter_eq_appendD [OF assms(1)] obtain us ws where
    m0: "map f cats = us @ ws" and pu: "pre = filter ?P us" and pw: "filter ?P ws = x # post"
    by auto
  from filter_eq_ConsD [OF pw] obtain us' vs where
    ws: "ws = us' @ x # vs" and no: "\<forall>u\<in>set us'. \<not> ?P u" and pos: "0 < snd x"
    and pv: "post = filter ?P vs"
    by auto
  define us2 where "us2 = us @ us'"
  have m: "map f cats = us2 @ x # vs" using m0 ws by (simp add: us2_def)
  from m obtain before c after where
    c: "cats = before @ c # after" and u: "map f before = us2" and x: "f c = x"
    and v: "map f after = vs"
    by (auto simp: map_eq_append_conv map_eq_Cons_conv)
  have "\<forall>d\<in>set before. snd (f d) < snd x"
  proof
    fix d assume "d \<in> set before"
    then have "f d \<in> set (map f before)" by simp
    then have mem: "f d \<in> set us \<or> f d \<in> set us'" unfolding u us2_def by auto
    show "snd (f d) < snd x"
    proof (cases "0 < snd (f d)")
      case True
      with mem no have "f d \<in> set pre" by (auto simp: pu)
      with assms(2) show ?thesis by blast
    next
      case False
      with pos show ?thesis by simp
    qed
  qed
  moreover have "\<forall>d\<in>set after. snd (f d) \<le> snd x"
  proof
    fix d assume "d \<in> set after"
    then have "f d \<in> set (map f after)" by simp
    then have mem: "f d \<in> set vs" unfolding v .
    show "snd (f d) \<le> snd x"
    proof (cases "0 < snd (f d)")
      case True
      with mem have "f d \<in> set post" by (simp add: pv)
      with assms(3) show ?thesis by blast
    next
      case False
      then show ?thesis by simp
    qed
  qed
  ultimately show ?thesis using c x pos by blast
qed

lemma contains_sublist: "contains s k \<longleftrightarrow> sublist k s"
  by (induction s) (simp_all add: sublist_Cons_right)

lemma first_max_unique:
  fixes g :: "'a \<Rightarrow> nat"
  assumes eq: "b1 @ x1 # a1 = b2 @ x2 # a2"
    and "\<forall>y\<in>set b1. g y < g x1" and "\<forall>y\<in>set a1. g y \<le> g x1"
    and "\<forall>y\<in>set b2. g y < g x2" and "\<forall>y\<in>set a2. g y \<le> g x2"
  shows "b1 = b2 \<and> x1 = x2 \<and> a1 = a2"
proof -
  from eq consider us where "b1 = b2 @ us" "us @ x1 # a1 = x2 # a2"
    | us where "b1 @ us = b2" "x1 # a1 = us @ x2 # a2"
    by (auto simp: append_eq_append_conv2)
  then show ?thesis
  proof cases
    case 1
    show ?thesis
    proof (cases us)
      case Nil
      with 1 show ?thesis by simp
    next
      case (Cons u us')
      with 1 have "x2 \<in> set b1" and "x1 \<in> set a2" by auto
      with assms have "g x2 < g x1" and "g x1 \<le> g x2" by blast+
      then show ?thesis by simp
    qed
  next
    case 2
    show ?thesis
    proof (cases us)
      case Nil
      with 2 show ?thesis by simp
    next
      case (Cons u us')
      with 2 have "x1 \<in> set b2" and "x2 \<in> set a1" by auto
      with assms have "g x1 < g x2" and "g x2 \<le> g x1" by blast+
      then show ?thesis by simp
    qed
  qed
qed

lemma categorize_forward:
  "if \<forall>(category, kws) \<in> set categories. score (full_text the_title the_content) kws = 0
      then categorize_article the_content the_title = ''general''
      else \<exists>before kws after.
             categories = before @ (categorize_article the_content the_title, kws) # after
           \<and> 0 < score (full_text the_title the_content) kws
           \<and> (\<forall>(c, ks) \<in> set before. score (full_text the_title the_content) ks < score (full_text the_title the_content) kws)
           \<and> (\<forall>(c, ks) \<in> set after. score (full_text the_title the_content) ks \<le> score (full_text the_title the_content) kws)"
proof -
  let ?t = "full_text the_title the_content"
  let ?f = "\<lambda>(category, kws). (category, score ?t kws)"
  show ?thesis
  proof (cases "category_scores ?t")
    case Nil
    then have "\<forall>(category, kws) \<in> set categories. score ?t kws = 0"
      by (auto simp: category_scores_def filter_empty_conv)
    moreover from Nil have "categorize_article the_content the_title = ''general''"
      by (simp add: categorize_article_def)
    ultimately show ?thesis by simp
  next
    case (Cons e es)
    then have res: "categorize_article the_content the_title = fst (max_entry e es)"
      by (simp add: categorize_article_def)
    from max_entry_split [of e es] obtain pre post where
      sp: "e # es = pre @ max_entry e es # post"
      and lt: "\<forall>y\<in>set pre. snd y < snd (max_entry e es)"
      and le: "\<forall>y\<in>set post. snd y \<le> snd (max_entry e es)"
      by blast
    have "(\<lambda>(c::string, sc::nat). sc > 0) = (\<lambda>p. 0 < snd p)"
      by (simp add: fun_eq_iff)
    with Cons sp have "filter (\<lambda>p. 0 < snd p) (map ?f categories) = pre @ max_entry e es # post"
      by (simp add: category_scores_def)
    from first_max_through_filter [OF this lt le] obtain before c after where
      cats: "categories = before @ c # after" and fc: "?f c = max_entry e es"
      and pos: "0 < snd (max_entry e es)"
      and b: "\<forall>d\<in>set before. snd (?f d) < snd (max_entry e es)"
      and a: "\<forall>d\<in>set after. snd (?f d) \<le> snd (max_entry e es)"
      by blast
    obtain category kws where c: "c = (category, kws)" by (cases c)
    with fc have m: "max_entry e es = (category, score ?t kws)" by simp
    have mem: "(category, kws) \<in> set categories"
      by (subst cats) (simp add: c)
    have nz: "\<not> (\<forall>(category, kws) \<in> set categories. score ?t kws = 0)"
      using mem pos m by (auto intro!: bexI [of _ "(category, kws)"])
    have "categories = before @ (categorize_article the_content the_title, kws) # after
           \<and> 0 < score ?t kws
           \<and> (\<forall>(c, ks) \<in> set before. score ?t ks < score ?t kws)
           \<and> (\<forall>(c, ks) \<in> set after. score ?t ks \<le> score ?t kws)"
      using cats c res m pos a b by (auto split: prod.splits)
    then show ?thesis using nz by (simp only: if_False) blast
  qed
qed

text \<open>
  C4. The seven categories are those listed, in that order. The text searched is the
  title, one space and the content, lower-cased: each capital letter replaced by its
  small letter. The count of a category is the number of its keywords that, lower-cased,
  occur in the text as a contiguous run. When every count is zero the result is
  \<open>general\<close>, and nothing else. Otherwise the result is the category, and the
  only one, whose count is positive, greater than the count of every category declared
  before it and at least the count of every category declared after it: the first
  declared among those with the highest count. The result is thus fixed by the title
  and the content.
\<close>

theorem categorize_contract:
  "map fst categories =
     [''stocks'', ''cryptocurrency'', ''economy'', ''markets'', ''business'',
      ''personal_finance'', ''real_estate'']
   \<and> full_text the_title the_content = lower (the_title @ '' '' @ the_content)
   \<and> (\<forall>s. lower s =
          map (\<lambda>c. let n = (of_char c :: nat)
                   in if (65 \<le> n \<and> n \<le> 90) \<or> (192 \<le> n \<and> n \<le> 214) \<or> (216 \<le> n \<and> n \<le> 222)
                      then char_of (n + 32) else c) s)
   \<and> (\<forall>text kws. score text kws = length (filter (\<lambda>keyword. sublist (lower keyword) text) kws))
   \<and> (\<forall>result. categorize_article the_content the_title = result \<longleftrightarrow>
         (if \<forall>(category, kws) \<in> set categories. score (full_text the_title the_content) kws = 0
          then result = ''general''
          else \<exists>before kws after.
                 categories = before @ (result, kws) # after
               \<and> 0 < score (full_text the_title the_content) kws
               \<and> (\<forall>(c, ks) \<in> set before.
                     score (full_text the_title the_content) ks < score (full_text the_title the_content) kws)
               \<and> (\<forall>(c, ks) \<in> set after.
                     score (full_text the_title the_content) ks \<le> score (full_text the_title the_content) kws)))"
proof -
  let ?t = "full_text the_title the_content"
  let ?g = "\<lambda>p :: string \<times> string list. score ?t (snd p)"
  have names: "map fst categories =
     [''stocks'', ''cryptocurrency'', ''economy'', ''markets'', ''business'',
      ''personal_finance'', ''real_estate'']"
    by (simp add: categories_def)
  have ft: "full_text the_title the_content = lower (the_title @ '' '' @ the_content)"
    by (rule full_text_def)
  have low: "\<forall>s. lower s =
          map (\<lambda>c. let n = (of_char c :: nat)
                   in if (65 \<le> n \<and> n \<le> 90) \<or> (192 \<le> n \<and> n \<le> 214) \<or> (216 \<le> n \<and> n \<le> 222)
                      then char_of (n + 32) else c) s"
    by (simp add: lower_def lower_char_def is_upper_def Let_def)
  have sc: "\<forall>text kws. score text kws = length (filter (\<lambda>keyword. sublist (lower keyword) text) kws)"
    by (simp add: score_def contains_sublist)
  have res: "\<forall>result. categorize_article the_content the_title = result \<longleftrightarrow>
         (if \<forall>(category, kws) \<in> set categories. score ?t kws = 0
          then result = ''general''
          else \<exists>before kws after.
                 categories = before @ (result, kws) # after
               \<and> 0 < score ?t kws
               \<and> (\<forall>(c, ks) \<in> set before. score ?t ks < score ?t kws)
               \<and> (\<forall>(c, ks) \<in> set after. score ?t ks \<le> score ?t kws))"
  proof (cases "\<forall>(category, kws) \<in> set categories. score ?t kws = 0")
    case True
    with categorize_forward [of the_title the_content]
    have "categorize_article the_content the_title = ''general''" by (simp only: if_True)
    with True show ?thesis by auto
  next
    case False
    with categorize_forward [of the_title the_content]
    obtain before kws after where
      d: "categories = before @ (categorize_article the_content the_title, kws) # after"
      and "0 < score ?t kws"
      and b0: "\<forall>(c, ks) \<in> set before. score ?t ks < score ?t kws"
      and a0: "\<forall>(c, ks) \<in> set after. score ?t ks \<le> score ?t kws"
      by (simp only: if_False) blast
    from b0 have b: "\<forall>y \<in> set before. ?g y < ?g (categorize_article the_content the_title, kws)"
      by (auto split: prod.splits)
    from a0 have a: "\<forall>y \<in> set after. ?g y \<le> ?g (categorize_article the_content the_title, kws)"
      by (auto split: prod.splits)
    have "categorize_article the_content the_title = result"
      if d': "categories = before' @ (result, kws') # after'"
        and b': "\<forall>(c, ks) \<in> set before'. score ?t ks < score ?t kws'"
        and a': "\<forall>(c, ks) \<in> set after'. score ?t ks \<le> score ?t kws'"
      for result before' kws' after'
    proof -
      from d d' have e: "before @ (categorize_article the_content the_title, kws) # after
          = before' @ (result, kws') # after'" by simp
      from b' have b2: "\<forall>y \<in> set before'. ?g y < ?g (result, kws')" by (auto split: prod.splits)
      from a' have a2: "\<forall>y \<in> set after'. ?g y \<le> ?g (result, kws')" by (auto split: prod.splits)
      from first_max_unique [of before _ after before' _ after' ?g, OF e b a b2 a2]
      show ?thesis by simp
    qed
    moreover have "\<exists>before kws after.
                 categories = before @ (categorize_article the_content the_title, kws) # after
               \<and> 0 < score ?t kws
               \<and> (\<forall>(c, ks) \<in> set before. score ?t ks < score ?t kws)
               \<and> (\<forall>(c, ks) \<in> set after. score ?t ks \<le> score ?t kws)"
      using categorize_forward [of the_title the_content] False by (simp only: if_False)
    ultimately show ?thesis using False by (simp only: if_False snd_conv) blast
  qed
  from names ft low sc res show ?thesis by (intro conjI)
qed

theorem categorize_contract_witness:
  "categorize_article ''the stock market rally'' ''Bitcoin'' = ''markets''
   \<and> categorize_article ''Bitcoin and stock'' ''Notes'' = ''stocks''
   \<and> categorize_article ''Sunny weather today'' ''Forecast'' = ''general''"
proof -
  let ?stocks = "(''stocks'', [''stock'', ''stocks'', ''equities'', ''nasdaq'', ''dow jones'', ''nyse'', ''s&p''])"
  let ?crypto = "(''cryptocurrency'', [''bitcoin'', ''ethereum'', ''crypto'', ''blockchain'', ''token'', ''cryptocurrency''])"
  let ?economy = "(''economy'', [''economy'', ''gdp'', ''inflation'', ''recession'', ''economic growth'', ''fed'', ''federal reserve''])"
  let ?markets = "(''markets'', [''market'', ''trading'', ''trader'', ''bulls'', ''bears'', ''rally'', ''correction''])"
  let ?business = "(''business'', [''company'', ''earnings'', ''revenue'', ''profit'', ''ceo'', ''startup'', ''merger'', ''acquisition''])"
  let ?personal = "(''personal_finance'', [''investing'', ''retirement'', ''mortgage'', ''loan'', ''credit'', ''debt'', ''saving''])"
  let ?estate = "(''real_estate'', [''housing'', ''real estate'', ''property'', ''mortgage'', ''commercial real estate''])"
  let ?a = "full_text ''Bitcoin'' ''the stock market rally''"
  let ?b = "full_text ''Notes'' ''Bitcoin and stock''"
  let ?c = "full_text ''Forecast'' ''Sunny weather today''"
  have d1: "categories = [?stocks, ?crypto, ?economy] @ ?markets # [?business, ?personal, ?estate]"
    by (simp add: categories_def)
  have d2: "categories = [] @ ?stocks # [?crypto, ?economy, ?markets, ?business, ?personal, ?estate]"
    by (simp add: categories_def)
  have a: "score ?a (snd ?stocks) = 1" "score ?a (snd ?crypto) = 1" "score ?a (snd ?economy) = 0"
    "score ?a (snd ?markets) = 2" "score ?a (snd ?business) = 0" "score ?a (snd ?personal) = 0"
    "score ?a (snd ?estate) = 0"
    by code_simp+
  have b: "score ?b (snd ?stocks) = 1" "score ?b (snd ?crypto) = 1" "score ?b (snd ?economy) = 0"
    "score ?b (snd ?markets) = 0" "score ?b (snd ?business) = 0" "score ?b (snd ?personal) = 0"
    "score ?b (snd ?estate) = 0"
    by code_simp+
  have c: "score ?c (snd ?stocks) = 0" "score ?c (snd ?crypto) = 0" "score ?c (snd ?economy) = 0"
    "score ?c (snd ?markets) = 0" "score ?c (snd ?business) = 0" "score ?c (snd ?personal) = 0"
    "score ?c (snd ?estate) = 0"
    by code_simp+
  have na: "\<not> (\<forall>(category, kws) \<in> set categories. score ?a kws = 0)"
    using a by (simp add: categories_def)
  have nb: "\<not> (\<forall>(category, kws) \<in> set categories. score ?b kws = 0)"
    using b by (simp add: categories_def)
  have zc: "\<forall>(category, kws) \<in> set categories. score ?c kws = 0"
    using c by (simp add: categories_def)
  have "\<exists>before kws after. categories = before @ (''markets'', kws) # after
      \<and> 0 < score ?a kws
      \<and> (\<forall>(c, ks) \<in> set before. score ?a ks < score ?a kws)
      \<and> (\<forall>(c, ks) \<in> set after. score ?a ks \<le> score ?a kws)"
    using a by (intro exI [of _ "[?stocks, ?crypto, ?economy]"] exI [of _ "snd ?markets"]
        exI [of _ "[?business, ?personal, ?estate]"]) (simp add: categories_def)
  with na have first: "categorize_article ''the stock market rally'' ''Bitcoin'' = ''markets''"
    using categorize_contract [where the_title = "''Bitcoin''" and the_content = "''the stock market rally''",
        THEN conjunct2, THEN conjunct2, THEN conjunct2, THEN conjunct2, THEN spec, of "''markets''"]
    by (simp only: if_False)
  have "\<exists>before kws after. categories = before @ (''stocks'', kws) # after
      \<and> 0 < score ?b kws
      \<and> (\<forall>(c, ks) \<in> set before. score ?b ks < score ?b kws)
      \<and> (\<forall>(c, ks) \<in> set after. score ?b ks \<le> score ?b kws)"
    using b by (intro exI [of _ "[]"] exI [of _ "snd ?stocks"]
        exI [of _ "[?crypto, ?economy, ?markets, ?business, ?personal, ?estate]"]) (simp add: categories_def)
  with nb have second: "categorize_article ''Bitcoin and stock'' ''Notes'' = ''stocks''"
    using categorize_contract [where the_title = "''Notes''" and the_content = "''Bitcoin and stock''",
        THEN conjunct2, THEN conjunct2, THEN conjunct2, THEN conjunct2, THEN spec, of "''stocks''"]
    by (simp only: if_False)
  have third: "categorize_article ''Sunny weather today'' ''Forecast'' = ''general''"
    by (rule categorize_contract [where the_title = "''Forecast''" and the_content = "''Sunny weather today''",
        THEN conjunct2, THEN conjunct2, THEN conjunct2, THEN conjunct2, THEN spec, THEN iffD2])
      (simp only: if_P [OF zc])
  from first second third show ?thesis by (intro conjI)
qed

section \<open>Properties of link extraction\<close>







section \<open>Properties of relative times\<close>

lemma space_not_digit: "is_space c \<Longrightarrow> \<not> is_digit c"
  by (auto simp: is_space_def is_digit_def less_eq_char_def Let_def)

lemma unit_not_digit: "is_unit c \<Longrightarrow> \<not> is_digit c"
  by (auto simp: is_unit_def is_digit_def)

lemma unit_not_space: "is_unit c \<Longrightarrow> \<not> is_space c"
  by (auto simp: is_unit_def is_space_def Let_def)

lemma match_here_run:
  assumes "ds \<noteq> []" and "list_all is_digit ds" and "list_all is_space ws" and "is_unit u"
  shows "match_here (ds @ ws @ u # post) = Some (ds, u)"
proof -
  have nd: "\<not> is_digit (hd (ws @ u # post))"
    using assms(3,4) by (cases ws) (auto simp: space_not_digit unit_not_digit)
  have tw: "takeWhile is_digit (ds @ ws @ u # post) = ds"
    using assms(2) nd
    by (cases "ws @ u # post") (auto simp: takeWhile_append2 list_all_iff takeWhile_eq_Nil_iff)
  have dw: "dropWhile is_digit (ds @ ws @ u # post) = ws @ u # post"
    using assms(2) nd
    by (cases "ws @ u # post") (auto simp: dropWhile_append2 list_all_iff dropWhile_eq_self_iff)
  have ds: "dropWhile is_space (ws @ u # post) = u # post"
    using assms(3,4) by (auto simp: dropWhile_append2 list_all_iff unit_not_space)
  show ?thesis
    using assms(1,4) by (simp add: match_here_def tw dw ds)
qed

lemma re_search_skip:
  "no_earlier_match pre rest \<Longrightarrow> re_search (pre @ rest) = re_search rest"
  by (induction pre) simp_all

lemma re_search_first:
  assumes "no_earlier_match pre (ds @ ws @ u # post)"
    and "ds \<noteq> []" and "list_all is_digit ds" and "list_all is_space ws" and "is_unit u"
  shows "re_search (pre @ ds @ ws @ u # post) = Some (ds, u)"
proof -
  from assms(2) obtain d ds' where ds: "ds = d # ds'" by (cases ds) auto
  have "re_search (ds @ ws @ u # post) = Some (ds, u)"
    using match_here_run [OF assms(2-5), of post] by (simp add: ds)
  with re_search_skip [OF assms(1)] show ?thesis by simp
qed

lemma no_digit_no_earlier_match:
  "list_all (\<lambda>c. \<not> is_digit c) pre \<Longrightarrow> no_earlier_match pre rest"
  by (induction pre) (simp_all add: match_here_def)

lemma int_of_digits_nonneg: "0 \<le> int_of_digits ds"
proof -
  have "0 \<le> n \<Longrightarrow> 0 \<le> foldl (\<lambda>n c. 10 * n + int (digit_val c)) n ds" for n
    by (induction ds arbitrary: n) simp_all
  then show ?thesis by (simp add: int_of_digits_def)
qed

lemma minus_delta_timedelta:
  assumes "0 \<le> now" and "now < max_instant" and "0 \<le> us"
    and "us = days * us_per_day + hours * 3600000000 + minutes * 60000000"
  shows "minus_delta now (timedelta days hours minutes) =
           (if us \<le> now then Inr (now - us) else Inl OverflowError)"
proof (cases "us \<le> now")
  case True
  then have "us < max_instant" using assms(2) by simp
  then have "us div us_per_day < 3652059"
    by (simp add: max_instant_def us_per_day_def)
  moreover have "0 \<le> us div us_per_day"
    using assms(3) by (simp add: us_per_day_def)
  ultimately have "timedelta days hours minutes = Inr us"
    using assms(4) by (simp add: timedelta_def Let_def)
  then show ?thesis
    using True assms(1-3) by (simp add: minus_delta_def datetime_sub_def Let_def)
next
  case False
  then show ?thesis
    using assms(4)
    by (auto simp: minus_delta_def datetime_sub_def timedelta_def Let_def split: sum.splits)
qed

text \<open>
  C3, amended. Let the text, lower-cased and stripped, have its first match of the
  pattern at a run of digits \<open>ds\<close>, whitespace \<open>ws\<close> and a unit letter
  \<open>u\<close>, no match starting earlier. Then the result is the clock minus
  \<open>n\<close> minutes, hours, days or \<open>365 n\<close> days, \<open>n\<close> the number
  \<open>ds\<close> denotes, whenever \<open>ds\<close> has at most 4300 digits and that instant is
  not before the first datetime; when the instant is, the call raises
  \<^verbatim>\<open>OverflowError\<close>, and for a longer run of digits it raises
  \<^verbatim>\<open>ValueError\<close>. When the pattern matches
  nowhere, the result is the clock if the text contains
  \<^verbatim>\<open>a few seconds ago\<close> or \<^verbatim>\<open>just now\<close>, and
  \<^verbatim>\<open>ValueError\<close> is raised otherwise.
\<close>

theorem parse_relative_time_spec:
  assumes "0 \<le> now" and "now < max_instant"
  shows
   "(strip (lower raw) = pre @ ds @ ws @ u # post
       \<and> no_earlier_match pre (ds @ ws @ u # post)
       \<and> ds \<noteq> [] \<and> list_all is_digit ds \<and> list_all is_space ws \<and> is_unit u
       \<and> length ds \<le> 4300 \<longrightarrow>
       parse_relative_time now raw =
         (if spec_duration (int_of_digits ds) u \<le> now
          then Inr (now - spec_duration (int_of_digits ds) u)
          else Inl OverflowError))
    \<and> (re_search (strip (lower raw)) = None
         \<and> (contains (strip (lower raw)) ''a few seconds ago''
              \<or> contains (strip (lower raw)) ''just now'') \<longrightarrow>
         parse_relative_time now raw = Inr now)
    \<and> (re_search (strip (lower raw)) = None
         \<and> \<not> contains (strip (lower raw)) ''a few seconds ago''
         \<and> \<not> contains (strip (lower raw)) ''just now'' \<longrightarrow>
         parse_relative_time now raw = Inl ValueError)
    \<and> (strip (lower raw) = pre @ ds @ ws @ u # post
       \<and> no_earlier_match pre (ds @ ws @ u # post)
       \<and> list_all is_digit ds \<and> list_all is_space ws \<and> is_unit u
       \<and> length ds > 4300 \<longrightarrow>
       parse_relative_time now raw = Inl ValueError)"
proof (intro conjI impI)
  assume a: "strip (lower raw) = pre @ ds @ ws @ u # post
       \<and> no_earlier_match pre (ds @ ws @ u # post)
       \<and> ds \<noteq> [] \<and> list_all is_digit ds \<and> list_all is_space ws \<and> is_unit u
       \<and> length ds \<le> 4300"
  then have m: "re_search (strip (lower raw)) = Some (ds, u)"
    using re_search_first [of pre ds ws u post] by simp
  from a have n: "py_int ds = Inr (int_of_digits ds)"
    by (simp add: py_int_def int_max_str_digits_def)
  let ?v = "int_of_digits ds"
  have v: "0 \<le> ?v" by (rule int_of_digits_nonneg)
  from a have "is_unit u" by simp
  then consider "u = CHR ''m''" | "u = CHR ''h''" | "u = CHR ''d''" | "u = CHR ''y''"
    by (auto simp: is_unit_def)
  then show "parse_relative_time now raw =
         (if spec_duration ?v u \<le> now then Inr (now - spec_duration ?v u) else Inl OverflowError)"
  proof cases
    case 1
    with m n v show ?thesis
      using minus_delta_timedelta [OF assms, of "?v * 60000000" 0 0 ?v]
      by (simp add: parse_relative_time_def spec_duration_def Let_def)
  next
    case 2
    with m n v show ?thesis
      using minus_delta_timedelta [OF assms, of "?v * 3600000000" 0 ?v 0]
      by (simp add: parse_relative_time_def spec_duration_def Let_def)
  next
    case 3
    with m n v show ?thesis
      using minus_delta_timedelta [OF assms, of "?v * us_per_day" ?v 0 0]
      by (simp add: parse_relative_time_def spec_duration_def Let_def us_per_day_def)
  next
    case 4
    with m n v show ?thesis
      using minus_delta_timedelta [OF assms, of "365 * ?v * us_per_day" "365 * ?v" 0 0]
      by (simp add: parse_relative_time_def spec_duration_def Let_def us_per_day_def)
  qed
next
  assume "re_search (strip (lower raw)) = None
         \<and> (contains (strip (lower raw)) ''a few seconds ago''
              \<or> contains (strip (lower raw)) ''just now'')"
  then show "parse_relative_time now raw = Inr now"
    by (auto simp: parse_relative_time_def seconds_or_fail_def Let_def)
next
  assume "re_search (strip (lower raw)) = None
         \<and> \<not> contains (strip (lower raw)) ''a few seconds ago''
         \<and> \<not> contains (strip (lower raw)) ''just now''"
  then show "parse_relative_time now raw = Inl ValueError"
    by (auto simp: parse_relative_time_def seconds_or_fail_def Let_def)
next
  assume a: "strip (lower raw) = pre @ ds @ ws @ u # post
       \<and> no_earlier_match pre (ds @ ws @ u # post)
       \<and> list_all is_digit ds \<and> list_all is_space ws \<and> is_unit u
       \<and> length ds > 4300"
  then have "ds \<noteq> []" by auto
  with a have "re_search (strip (lower raw)) = Some (ds, u)"
    using re_search_first [of pre ds ws u post] by simp
  moreover from a have "py_int ds = Inl ValueError"
    by (simp add: py_int_def int_max_str_digits_def)
  ultimately show "parse_relative_time now raw = Inl ValueError"
    by (simp add: parse_relative_time_def Let_def)
qed

text \<open>
  C3. The text \<^verbatim>\<open>9999y ago\<close> matches the pattern, and the call does
  not return the clock minus 9999 times 365 days: that instant is before the year 1,
  and the subtraction raises \<^verbatim>\<open>OverflowError\<close>.
\<close>

theorem parse_relative_time_overflow:
  "0 \<le> sample_now \<and> sample_now < max_instant
   \<and> parse_relative_time sample_now ''9999y ago'' = Inl OverflowError
   \<and> parse_relative_time sample_now ''9999y ago'' \<noteq> Inr (sample_now - 365 * 9999 * us_per_day)"
  by code_simp


theorem parse_relative_time_spec_witness:
  "parse_relative_time sample_now ''3h ago'' = Inr (sample_now - 3 * 3600000000)
   \<and> parse_relative_time sample_now (''5'' @ [CHR 0xA0] @ ''m ago'') = Inr (sample_now - 5 * 60000000)
   \<and> parse_relative_time sample_now '' Just NOW '' = Inr sample_now
   \<and> parse_relative_time sample_now ''2 weeks ago'' = Inl ValueError
   \<and> parse_relative_time sample_now (replicate 4301 CHR ''0'' @ ''m ago'') = Inl ValueError"
proof -
  have r: "0 \<le> sample_now" "sample_now < max_instant"
    by (simp_all add: sample_now_def max_instant_def us_per_day_def)
  have h1: "strip (lower ''3h ago'') = [] @ ''3'' @ [] @ CHR ''h'' # '' ago''
      \<and> no_earlier_match [] (''3'' @ [] @ CHR ''h'' # '' ago'')
      \<and> ''3'' \<noteq> [] \<and> list_all is_digit ''3'' \<and> list_all is_space [] \<and> is_unit CHR ''h''
      \<and> length ''3'' \<le> 4300"
    by code_simp
  have e1: "spec_duration (int_of_digits ''3'') CHR ''h'' = 3 * 3600000000"
    by code_simp
  have h1': "strip (lower (''5'' @ [CHR 0xA0] @ ''m ago'')) = [] @ ''5'' @ [CHR 0xA0] @ CHR ''m'' # '' ago''
      \<and> no_earlier_match [] (''5'' @ [CHR 0xA0] @ CHR ''m'' # '' ago'')
      \<and> ''5'' \<noteq> [] \<and> list_all is_digit ''5'' \<and> list_all is_space [CHR 0xA0] \<and> is_unit CHR ''m''
      \<and> length ''5'' \<le> 4300"
    by code_simp
  have e1': "spec_duration (int_of_digits ''5'') CHR ''m'' = 5 * 60000000"
    by code_simp
  have h2: "re_search (strip (lower '' Just NOW '')) = None
      \<and> (contains (strip (lower '' Just NOW '')) ''a few seconds ago''
           \<or> contains (strip (lower '' Just NOW '')) ''just now'')"
    by code_simp
  have h3: "re_search (strip (lower ''2 weeks ago'')) = None
      \<and> \<not> contains (strip (lower ''2 weeks ago'')) ''a few seconds ago''
      \<and> \<not> contains (strip (lower ''2 weeks ago'')) ''just now''"
    by code_simp
  have lz: "lower (replicate 4301 CHR ''0'' @ ''m ago'') = replicate 4301 CHR ''0'' @ ''m ago''"
    by (simp add: lower_def lower_char_def is_upper_def)
  have "dropWhile is_space (replicate 4301 CHR ''0'' @ ''m ago'') = replicate 4301 CHR ''0'' @ ''m ago''"
    by (simp add: dropWhile_append3 is_space_def)
  then have sz: "strip (replicate 4301 CHR ''0'' @ ''m ago'') = replicate 4301 CHR ''0'' @ ''m ago''"
    by (simp add: strip_def is_space_def)
  have h4: "strip (lower (replicate 4301 CHR ''0'' @ ''m ago''))
        = [] @ replicate 4301 CHR ''0'' @ [] @ CHR ''m'' # '' ago''
      \<and> no_earlier_match [] (replicate 4301 CHR ''0'' @ [] @ CHR ''m'' # '' ago'')
      \<and> list_all is_digit (replicate 4301 CHR ''0'') \<and> list_all is_space [] \<and> is_unit CHR ''m''
      \<and> length (replicate 4301 CHR ''0'') > 4300"
    by (simp add: lz sz list_all_iff is_digit_def is_unit_def)
  from parse_relative_time_spec [OF r, where raw = "''3h ago''" and pre = "[]" and ds = "''3''"
      and ws = "[]" and u = "CHR ''h''" and post = "'' ago''", THEN conjunct1, THEN mp, OF h1]
  have "parse_relative_time sample_now ''3h ago'' = Inr (sample_now - 3 * 3600000000)"
    by (simp add: e1 sample_now_def)
  moreover from parse_relative_time_spec [OF r, where raw = "''5'' @ [CHR 0xA0] @ ''m ago''"
      and pre = "[]" and ds = "''5''" and ws = "[CHR 0xA0]" and u = "CHR ''m''" and post = "'' ago''",
      THEN conjunct1, THEN mp, OF h1']
  have "parse_relative_time sample_now (''5'' @ [CHR 0xA0] @ ''m ago'') = Inr (sample_now - 5 * 60000000)"
    by (simp add: e1' sample_now_def)
  moreover from parse_relative_time_spec [OF r, where raw = "'' Just NOW ''",
      THEN conjunct2, THEN conjunct1, THEN mp, OF h2]
  have "parse_relative_time sample_now '' Just NOW '' = Inr sample_now" .
  moreover from parse_relative_time_spec [OF r, where raw = "''2 weeks ago''",
      THEN conjunct2, THEN conjunct2, THEN conjunct1, THEN mp, OF h3]
  have "parse_relative_time sample_now ''2 weeks ago'' = Inl ValueError" .
  moreover from parse_relative_time_spec [OF r, where raw = "replicate 4301 CHR ''0'' @ ''m ago''"
      and pre = "[]" and ds = "replicate 4301 CHR ''0''" and ws = "[]" and u = "CHR ''m''"
      and post = "'' ago''", THEN conjunct2, THEN conjunct2, THEN conjunct2, THEN mp, OF h4]
  have "parse_relative_time sample_now (replicate 4301 CHR ''0'' @ ''m ago'') = Inl ValueError" .
  ultimately show ?thesis by (intro conjI)
qed

section \<open>Properties of timestamps\<close>

text \<open>Comparing numbers by their digits, and strings block by block.\<close>

lemma lex10:
  fixes qa qb ra rb :: nat
  assumes "ra < 10" and "rb < 10"
  shows "(qa < qb \<or> qa = qb \<and> ra < rb) \<longleftrightarrow> 10 * qa + ra < 10 * qb + rb"
  using assms by linarith

lemma lex100:
  fixes qa qb ra rb :: nat
  assumes "ra < 100" and "rb < 100"
  shows "(qa < qb \<or> qa = qb \<and> ra < rb) \<longleftrightarrow> 100 * qa + ra < 100 * qb + rb"
  using assms by linarith

lemma two_digits_less:
  fixes a b :: nat
  shows "(a div 10 < b div 10 \<or> a div 10 = b div 10 \<and> a mod 10 < b mod 10) \<longleftrightarrow> a < b"
proof -
  have "(a div 10 < b div 10 \<or> a div 10 = b div 10 \<and> a mod 10 < b mod 10)
      \<longleftrightarrow> 10 * (a div 10) + a mod 10 < 10 * (b div 10) + b mod 10"
    by (rule lex10) simp_all
  then show ?thesis by (simp only: mult_div_mod_eq)
qed

lemma two_blocks_less:
  fixes a b :: nat
  shows "(a div 100 < b div 100 \<or> a div 100 = b div 100 \<and> a mod 100 < b mod 100) \<longleftrightarrow> a < b"
proof -
  have "(a div 100 < b div 100 \<or> a div 100 = b div 100 \<and> a mod 100 < b mod 100)
      \<longleftrightarrow> 100 * (a div 100) + a mod 100 < 100 * (b div 100) + b mod 100"
    by (rule lex100) simp_all
  then show ?thesis by (simp only: mult_div_mod_eq)
qed

lemma block_less:
  fixes x y :: "'a::linorder list"
  assumes "length x = length y"
  shows "x @ s < y @ t \<longleftrightarrow> x < y \<or> x = y \<and> s < t"
  using assms by (induction x y rule: list_induct2) auto

lemma block_le:
  fixes x y :: "'a::linorder list"
  assumes "length x = length y"
  shows "x @ s \<le> y @ t \<longleftrightarrow> x < y \<or> x = y \<and> s \<le> t"
  using assms by (induction x y rule: list_induct2) auto

lemma div_mod_eq_iff100: "(a::nat) div 100 = b div 100 \<and> a mod 100 = b mod 100 \<longleftrightarrow> a = b"
  by (metis div_mult_mod_eq)

lemma div_mod_eq_iff10: "(a::nat) div 10 = b div 10 \<and> a mod 10 = b mod 10 \<longleftrightarrow> a = b"
  by (metis div_mult_mod_eq)


lemma div10_less: "a < 100 \<Longrightarrow> a div 10 < (10::nat)"
  by (simp add: div_less_iff_less_mult)

lemma div100_less: "a < 10000 \<Longrightarrow> a div 100 < (100::nat)"
  by (simp add: div_less_iff_less_mult)

lemma div1000: "(n::nat) div 1000 = n div 100 div 10"
  by (simp add: div_mult2_eq [symmetric])

lemma mod100_div10: "(n::nat) mod 100 div 10 = n div 10 mod 10"
proof -
  have "n mod (10 * 10) = 10 * (n div 10 mod 10) + n mod 10"
    by (rule mod_mult2_eq)
  then have "n mod 100 = 10 * (n div 10 mod 10) + n mod 10" by simp
  then show ?thesis by simp
qed

lemma mod100_mod10: "(n::nat) mod 100 mod 10 = n mod 10"
  by (simp add: mod_mod_cancel)

lemma of_char_digit_char: "(of_char (digit_char n) :: nat) = 48 + n mod 10"
proof -
  have "n mod 10 < 10" by simp
  then have "(48 + n mod 10) mod 256 = 48 + n mod 10" by simp
  then show ?thesis by (simp add: digit_char_def)
qed


lemma digit_char_less: "digit_char a < digit_char b \<longleftrightarrow> a mod 10 < b mod 10"
  by (simp add: less_char_def of_char_digit_char)

lemma digit_char_eq: "digit_char a = digit_char b \<longleftrightarrow> a mod 10 = b mod 10"
proof
  assume "digit_char a = digit_char b"
  then have "(of_char (digit_char a) :: nat) = of_char (digit_char b)" by simp
  then show "a mod 10 = b mod 10" by (simp add: of_char_digit_char)
next
  assume "a mod 10 = b mod 10"
  then show "digit_char a = digit_char b" by (simp add: digit_char_def)
qed

lemma is_digit_digit_char: "is_digit (digit_char n)"
  by (simp add: is_digit_def less_eq_char_def of_char_digit_char)

lemma digit_char_zero: "digit_char 0 = CHR ''0''"
  by code_simp

lemma dec2_less: "a < 100 \<Longrightarrow> b < 100 \<Longrightarrow> dec2 a < dec2 b \<longleftrightarrow> a < b"
proof -
  assume "a < 100" and "b < 100"
  then have q: "a div 10 mod 10 = a div 10" "b div 10 mod 10 = b div 10"
    by (simp_all add: div10_less)
  have "dec2 a < dec2 b \<longleftrightarrow>
      (a div 10 < b div 10 \<or> a div 10 = b div 10 \<and> a mod 10 < b mod 10)"
    by (simp add: dec2_def digit_char_less digit_char_eq q)
  also have "\<dots> \<longleftrightarrow> a < b" by (rule two_digits_less)
  finally show ?thesis .
qed

lemma dec2_eq: "a < 100 \<Longrightarrow> b < 100 \<Longrightarrow> dec2 a = dec2 b \<longleftrightarrow> a = b"
proof -
  assume "a < 100" and "b < 100"
  then have q: "a div 10 mod 10 = a div 10" "b div 10 mod 10 = b div 10"
    by (simp_all add: div10_less)
  have "dec2 a = dec2 b \<longleftrightarrow> (a div 10 = b div 10 \<and> a mod 10 = b mod 10)"
    by (simp add: dec2_def digit_char_eq q)
  also have "\<dots> \<longleftrightarrow> a = b" by (rule div_mod_eq_iff10)
  finally show ?thesis .
qed

lemma dec4_split: "dec4 n = dec2 (n div 100) @ dec2 (n mod 100)"
  by (simp add: dec4_def dec2_def digit_char_eq div1000 mod100_div10 mod100_mod10)

lemma length_dec [simp]: "length (dec2 n) = 2" "length (dec4 n) = 4"
  by (simp_all add: dec2_def dec4_def)

lemma dec4_less: "a < 10000 \<Longrightarrow> b < 10000 \<Longrightarrow> dec4 a < dec4 b \<longleftrightarrow> a < b"
proof -
  assume "a < 10000" and "b < 10000"
  then have q: "a div 100 < 100" "b div 100 < 100" "a mod 100 < 100" "b mod 100 < 100"
    by (simp_all add: div100_less)
  have "dec4 a < dec4 b \<longleftrightarrow>
      (a div 100 < b div 100 \<or> a div 100 = b div 100 \<and> a mod 100 < b mod 100)"
    by (simp add: dec4_split block_less dec2_less dec2_eq q)
  also have "\<dots> \<longleftrightarrow> a < b" by (rule two_blocks_less)
  finally show ?thesis .
qed

lemma dec4_eq: "a < 10000 \<Longrightarrow> b < 10000 \<Longrightarrow> dec4 a = dec4 b \<longleftrightarrow> a = b"
proof -
  assume "a < 10000" and "b < 10000"
  then have q: "a div 100 < 100" "b div 100 < 100" "a mod 100 < 100" "b mod 100 < 100"
    by (simp_all add: div100_less)
  have "dec4 a = dec4 b \<longleftrightarrow> (a div 100 = b div 100 \<and> a mod 100 = b mod 100)"
    by (simp add: dec4_split dec2_eq q)
  also have "\<dots> \<longleftrightarrow> a = b" by (rule div_mod_eq_iff100)
  finally show ?thesis .
qed

lemma dec2_le: "a < 100 \<Longrightarrow> b < 100 \<Longrightarrow> dec2 a \<le> dec2 b \<longleftrightarrow> a \<le> b"
  using dec2_less [of b a] by (simp add: not_less [symmetric])


lemma year_text_dec4:
  assumes "padded \<or> 1000 \<le> y" and "y < 10000"
  shows "year_text padded y = dec4 y"
proof (cases padded)
  case True
  then show ?thesis by (simp add: year_text_def)
next
  case False
  with assms(1) have "1000 \<le> y" by simp
  then have "0 < y div 1000" by (simp add: div_greater_zero_iff)
  moreover from assms(2) have "y div 1000 < 10" by (simp add: div_less_iff_less_mult)
  ultimately have "y div 1000 mod 10 \<noteq> 0 mod 10" by simp
  then have "digit_char (y div 1000) \<noteq> CHR ''0''"
    using digit_char_eq [of "y div 1000" 0] by (simp add: digit_char_zero)
  then show ?thesis
    using False by (simp add: year_text_def dec4_def)
qed

lemma stamp_le:
  assumes "y < 10000" "m < 100" "d < 100" "hh < 100" "mm < 100" "ss < 100"
    and "y' < 10000" "m' < 100" "d' < 100" "hh' < 100" "mm' < 100" "ss' < 100"
  shows "dec4 y @ ''-'' @ dec2 m @ ''-'' @ dec2 d @ '' '' @ dec2 hh @ '':'' @ dec2 mm @ '':'' @ dec2 ss
       \<le> dec4 y' @ ''-'' @ dec2 m' @ ''-'' @ dec2 d' @ '' '' @ dec2 hh' @ '':'' @ dec2 mm' @ '':'' @ dec2 ss'
     \<longleftrightarrow> [y, m, d, hh, mm, ss] \<le> [y', m', d', hh', mm', ss']"
  using assms by (simp add: block_le dec4_less dec4_eq dec2_less dec2_eq dec2_le le_eq_less_or_eq)

lemma valid_datetime_bounds:
  assumes "valid_datetime t"
  shows "year t < 10000" "month t < 100" "day t < 100" "hour t < 100" "minute t < 100"
    "second t < 100"
  using assms
  by (auto simp: valid_datetime_def valid_date_def days_in_month_def split: if_splits)

lemma strftime_le:
  assumes "valid_datetime a" and "valid_datetime b"
    and "padded \<or> 1000 \<le> year a" and "padded \<or> 1000 \<le> year b"
  shows "strftime padded a \<le> strftime padded b \<longleftrightarrow> dt_seconds a \<le> dt_seconds b"
  using stamp_le [OF valid_datetime_bounds [OF assms(1)] valid_datetime_bounds [OF assms(2)]]
    year_text_dec4 [OF assms(3) valid_datetime_bounds(1) [OF assms(1)]]
    year_text_dec4 [OF assms(4) valid_datetime_bounds(1) [OF assms(2)]]
  by (simp only: strftime_def dt_seconds_def)

lemma strftime_is_timestamp:
  assumes "valid_datetime a" and "padded \<or> 1000 \<le> year a"
  shows "is_timestamp (strftime padded a)"
  using year_text_dec4 [OF assms(2) valid_datetime_bounds(1) [OF assms(1)]]
  by (simp add: is_timestamp_def strftime_def dec4_def dec2_def is_digit_digit_char)

lemma char_of_digit:
  "char_of (48::nat) = CHR ''0''" "char_of (49::nat) = CHR ''1''" "char_of (50::nat) = CHR ''2''"
  "char_of (51::nat) = CHR ''3''" "char_of (52::nat) = CHR ''4''" "char_of (53::nat) = CHR ''5''"
  "char_of (54::nat) = CHR ''6''" "char_of (55::nat) = CHR ''7''" "char_of (56::nat) = CHR ''8''"
  "char_of (57::nat) = CHR ''9''"
  by code_simp+

lemmas stamp_eval = strftime_def year_text_def dec4_def dec2_def digit_char_def char_of_digit

lemma strftime_less:
  assumes "valid_datetime a" and "valid_datetime b"
    and "padded \<or> 1000 \<le> year a" and "padded \<or> 1000 \<le> year b"
  shows "strftime padded a < strftime padded b \<longleftrightarrow> dt_seconds a < dt_seconds b"
  using strftime_le [OF assms(2) assms(1) assms(4) assms(3)]
  by (simp add: not_le [symmetric])

lemma process_article_row:
  "process_article padded raises extracted now db url source date_range = Inr (True, db') \<Longrightarrow>
     \<exists>data r. extracted = Some data \<and> articles db' = articles db @ [r]
       \<and> row_publish_date r = strftime padded (publish_date data)
       \<and> row_retrieved_date r = strftime padded now"
  by (auto simp: process_article_def insert_article_def split: option.splits if_splits sum.splits)

lemma search_by_term_row:
  "\<exists>older t. search_terms (snd (search_by_term padded now db term)) = older @ [t]
     \<and> st_term t = term \<and> st_last_search t = strftime padded now
     \<and> (\<forall>x\<in>set older. st_term x \<noteq> term)"
  by (simp add: search_by_term_def replace_search_term_def Let_def)

text \<open>
  Let the platform pad the year, or the years be 1000 or later. Then the string
  written for a datetime has the shape \<^verbatim>\<open>YYYY-MM-DD HH:MM:SS\<close>, and
  two such strings compare, as strings, the way their datetimes compare to the second.
  The publish date and the retrieval date of a stored article and the last-search time
  of a search term are strings written so: of the page's publish date and of the clock.
\<close>

lemma timestamp_format:
  assumes "valid_datetime a" and "valid_datetime b"
    and "padded \<or> 1000 \<le> year a" and "padded \<or> 1000 \<le> year b"
  shows "is_timestamp (strftime padded a)
     \<and> (strftime padded a \<le> strftime padded b \<longleftrightarrow> dt_seconds a \<le> dt_seconds b)
     \<and> (strftime padded a < strftime padded b \<longleftrightarrow> dt_seconds a < dt_seconds b)
     \<and> (process_article padded raises extracted now db url source date_range = Inr (True, db') \<longrightarrow>
          (\<exists>data r. extracted = Some data \<and> articles db' = articles db @ [r]
             \<and> row_publish_date r = strftime padded (publish_date data)
             \<and> row_retrieved_date r = strftime padded now))
     \<and> (\<exists>older t. search_terms (snd (search_by_term padded now db term)) = older @ [t]
             \<and> st_term t = term \<and> st_last_search t = strftime padded now)"
proof -
  have "\<exists>older t. search_terms (snd (search_by_term padded now db term)) = older @ [t]
             \<and> st_term t = term \<and> st_last_search t = strftime padded now"
    using search_by_term_row [of padded now db "term"] by blast
  then show ?thesis
    using strftime_is_timestamp [OF assms(1) assms(3)] strftime_le [OF assms]
      strftime_less [OF assms]
      process_article_row [of padded raises extracted now db url source date_range db']
    by blast
qed

lemma timestamp_format_sample:
  "is_timestamp (strftime False (publish_date sample_page))
   \<and> strftime False (publish_date sample_page) < strftime False sample_clock"
proof -
  have v: "valid_datetime (publish_date sample_page)" "valid_datetime sample_clock"
    "False \<or> 1000 \<le> year (publish_date sample_page)" "False \<or> 1000 \<le> year sample_clock"
    by (simp_all add: valid_datetime_def valid_date_def days_in_month_def is_leap_def
        sample_page_def sample_clock_def)
  have lt: "dt_seconds (publish_date sample_page) < dt_seconds sample_clock"
    by (simp add: dt_seconds_def sample_page_def sample_clock_def)
  from timestamp_format [OF v] lt show ?thesis by blast
qed

text \<open>
  C10. The code writes every timestamp with the format
  \<^verbatim>\<open>%Y-%m-%d %H:%M:%S\<close> and compares and sorts the strings. On a
  platform that writes the year without padding, a page dated in the year 999 is
  stored with a publish date that is not of the shape
  \<^verbatim>\<open>YYYY-MM-DD HH:MM:SS\<close>, and that string sorts after the timestamp of a
  later instant.
\<close>

theorem timestamp_unpadded_year:
  "valid_datetime (publish_date old_page)
   \<and> map row_publish_date
         (articles (snd (projr (process_article False (\<lambda>c. False) (Some old_page) sample_clock
            setup_database sample_url ''CNBC'' None))))
       = [''999-01-02 03:04:05'']
   \<and> \<not> is_timestamp ''999-01-02 03:04:05''
   \<and> strftime False sample_clock < strftime False (publish_date old_page)
   \<and> dt_seconds (publish_date old_page) < dt_seconds sample_clock"
  by (simp add: valid_datetime_def valid_date_def days_in_month_def is_leap_def
      process_article_def url_exists_def setup_database_def insert_article_def
      is_timestamp_def dt_seconds_def stamp_eval old_page_def sample_page_def sample_clock_def)

section \<open>Properties of the queries\<close>

lemmas char_eval = lower_def lower_char_def is_upper_def sqlite_lower_def Let_def char_of_def bit_0

lemmas strptime_eval = strptime_ymd_def expect_hyphen_def is_digit_def digit_val_def in_range_def
  valid_date_def days_in_month_def is_leap_def

lemma set_order_by_desc: "set (order_by_desc col rows) = set rows"
  by (simp add: order_by_desc_def)

lemma sorted_order_by_desc: "sorted_wrt (\<ge>) (map col (order_by_desc col rows))"
proof -
  have "sorted (map col (sort_key col (rev rows)))" by (rule sorted_sort_key)
  then have "sorted_wrt (\<lambda>x y. y \<ge> x) (map col (sort_key col (rev rows)))" by simp
  then have "sorted_wrt (\<ge>) (rev (map col (sort_key col (rev rows))))"
    by (simp add: sorted_wrt_rev)
  then show ?thesis by (simp add: order_by_desc_def rev_map)
qed

lemma strptime_ymd_Inr:
  assumes "strptime_ymd s = Inr d"
  shows "valid_datetime d \<and> hour d = 0 \<and> minute d = 0 \<and> second d = 0 \<and> microsecond d = 0"
  using assms
  by (auto simp: strptime_ymd_def valid_datetime_def split: option.splits prod.splits if_splits)

lemma end_of_day_valid: "valid_datetime d \<Longrightarrow> valid_datetime (end_of_day d)"
  by (simp add: valid_datetime_def end_of_day_def)

lemma end_of_day_seconds: "dt_seconds (end_of_day d) = [year d, month d, day d, 23, 59, 59]"
  by (simp add: dt_seconds_def end_of_day_def)

lemma midnight_seconds:
  "hour d = 0 \<Longrightarrow> minute d = 0 \<Longrightarrow> second d = 0 \<Longrightarrow> dt_seconds d = [year d, month d, day d, 0, 0, 0]"
  by (simp add: dt_seconds_def)

text \<open>
  What holds of the query by date range. When either argument is not a date in the
  format \<^verbatim>\<open>%Y-%m-%d\<close>, the query returns the empty list. When both are,
  and the platform pads the year or both years are 1000 or later, the query returns
  seven columns of rows taken from the table, latest publish date first; and a stored
  article whose publish date was written for a datetime \<open>d\<close> (of a year the
  platform writes in four digits) is among them exactly when \<open>d\<close>, to the
  second, is not before 00:00:00 of the start date and not after 23:59:59 of the end
  date.
\<close>

lemma date_range_query:
  "(isl (strptime_ymd start_date) \<or> isl (strptime_ymd end_date) \<longrightarrow>
      get_articles_by_date_range padded db start_date end_date = [])
   \<and> (strptime_ymd start_date = Inr s \<and> strptime_ymd end_date = Inr e
        \<and> (padded \<or> 1000 \<le> year s \<and> 1000 \<le> year e) \<longrightarrow>
        (\<exists>rows. get_articles_by_date_range padded db start_date end_date = map columns7 rows
           \<and> sorted_wrt (\<ge>) (map row_publish_date rows)
           \<and> (\<forall>r d. valid_datetime d \<and> (padded \<or> 1000 \<le> year d)
                     \<and> row_publish_date r = strftime padded d \<longrightarrow>
                  (r \<in> set rows \<longleftrightarrow>
                     r \<in> set (articles db)
                     \<and> [year s, month s, day s, 0, 0, 0] \<le> dt_seconds d
                     \<and> dt_seconds d \<le> [year e, month e, day e, 23, 59, 59]))))"
proof (intro conjI impI)
  assume "isl (strptime_ymd start_date) \<or> isl (strptime_ymd end_date)"
  then show "get_articles_by_date_range padded db start_date end_date = []"
    by (auto simp: get_articles_by_date_range_def isl_def split: sum.splits)
next
  assume a: "strptime_ymd start_date = Inr s \<and> strptime_ymd end_date = Inr e
        \<and> (padded \<or> 1000 \<le> year s \<and> 1000 \<le> year e)"
  let ?lo = "strftime padded s" and ?hi = "strftime padded (end_of_day e)"
  let ?rows = "select_date_range db ?lo ?hi"
  from a have vs: "valid_datetime s" and ms: "dt_seconds s = [year s, month s, day s, 0, 0, 0]"
    using strptime_ymd_Inr [of start_date s] by (simp_all add: midnight_seconds)
  from a have ve: "valid_datetime (end_of_day e)"
    using strptime_ymd_Inr [of end_date e] by (simp add: end_of_day_valid)
  from a have ps: "padded \<or> 1000 \<le> year s" and pe: "padded \<or> 1000 \<le> year (end_of_day e)"
    by (auto simp: end_of_day_def)
  have res: "get_articles_by_date_range padded db start_date end_date = map columns7 ?rows"
    using a by (simp add: get_articles_by_date_range_def)
  have srt: "sorted_wrt (\<ge>) (map row_publish_date ?rows)"
    by (simp add: select_date_range_def sorted_order_by_desc)
  have mem: "r \<in> set ?rows \<longleftrightarrow>
               r \<in> set (articles db)
               \<and> [year s, month s, day s, 0, 0, 0] \<le> dt_seconds d
               \<and> dt_seconds d \<le> [year e, month e, day e, 23, 59, 59]"
    if d: "valid_datetime d \<and> (padded \<or> 1000 \<le> year d) \<and> row_publish_date r = strftime padded d"
    for r d
  proof -
    from d have vd: "valid_datetime d" and pd: "padded \<or> 1000 \<le> year d"
      and rd: "row_publish_date r = strftime padded d" by simp_all
    have "r \<in> set ?rows \<longleftrightarrow> r \<in> set (articles db) \<and> ?lo \<le> strftime padded d \<and> strftime padded d \<le> ?hi"
      by (auto simp: select_date_range_def set_order_by_desc rd)
    also have "\<dots> \<longleftrightarrow> r \<in> set (articles db) \<and> dt_seconds s \<le> dt_seconds d
        \<and> dt_seconds d \<le> dt_seconds (end_of_day e)"
      by (simp only: strftime_le [OF vs vd ps pd] strftime_le [OF vd ve pd pe])
    finally show ?thesis by (simp only: ms end_of_day_seconds)
  qed
  from res srt mem show "\<exists>rows. get_articles_by_date_range padded db start_date end_date = map columns7 rows
           \<and> sorted_wrt (\<ge>) (map row_publish_date rows)
           \<and> (\<forall>r d. valid_datetime d \<and> (padded \<or> 1000 \<le> year d)
                     \<and> row_publish_date r = strftime padded d \<longrightarrow>
                  (r \<in> set rows \<longleftrightarrow>
                     r \<in> set (articles db)
                     \<and> [year s, month s, day s, 0, 0, 0] \<le> dt_seconds d
                     \<and> dt_seconds d \<le> [year e, month e, day e, 23, 59, 59]))"
    by blast
qed


lemma sample_category: "categorize_article ''Top 5 stocks to watch.'' ''Fed holds rates'' = ''stocks''"
  by code_simp

lemma sample_db_articles:
  "articles sample_db =
     [\<lparr>row_id = 1, row_title = ''Fed holds rates'', row_url = sample_url, row_source = ''CNBC'',
       row_author = ''Unknown'', row_publish_date = ''2025-03-14 08:00:00'',
       row_content = ''Top 5 stocks to watch.'', row_summary = ''Top 5 stocks to watch.'',
       row_keywords = [], row_retrieved_date = ''2025-03-14 09:26:53'',
       row_category = ''stocks''\<rparr>]"
  by (simp add: sample_db_def process_article_def url_exists_def setup_database_def
      insert_article_def sample_page_def sample_clock_def stamp_eval sample_category)

lemma sample_publish_stamp: "strftime False (publish_date sample_page) = ''2025-03-14 08:00:00''"
  by (simp add: sample_page_def stamp_eval)

text \<open>
  C7. The method is to return the articles published within the range of dates. On a
  platform that writes the year without padding, a start date before the year 1000 is
  written as a shorter string, which no stored timestamp of a later year reaches: the
  query from 0999-01-01 to 2025-12-31 returns nothing, though the stored article was
  published within that range.
\<close>

theorem date_range_query_unpadded:
  "strptime_ymd ''0999-01-01''
     = Inr \<lparr>year = 999, month = 1, day = 1, hour = 0, minute = 0, second = 0, microsecond = 0\<rparr>
   \<and> strptime_ymd ''2025-12-31''
     = Inr \<lparr>year = 2025, month = 12, day = 31, hour = 0, minute = 0, second = 0, microsecond = 0\<rparr>
   \<and> map row_publish_date (articles sample_db) = [strftime False (publish_date sample_page)]
   \<and> valid_datetime (publish_date sample_page)
   \<and> [999, 1, 1, 0, 0, 0] \<le> dt_seconds (publish_date sample_page)
   \<and> dt_seconds (publish_date sample_page) \<le> [2025, 12, 31, 23, 59, 59]
   \<and> get_articles_by_date_range False sample_db ''0999-01-01'' ''2025-12-31'' = []"
proof -
  have p: "strptime_ymd ''0999-01-01''
     = Inr \<lparr>year = 999, month = 1, day = 1, hour = 0, minute = 0, second = 0, microsecond = 0\<rparr>"
    "strptime_ymd ''2025-12-31''
     = Inr \<lparr>year = 2025, month = 12, day = 31, hour = 0, minute = 0, second = 0, microsecond = 0\<rparr>"
    by (simp_all add: strptime_eval)
  have "get_articles_by_date_range False sample_db ''0999-01-01'' ''2025-12-31'' = []"
    by (simp add: get_articles_by_date_range_def p select_date_range_def order_by_desc_def
        sample_db_articles end_of_day_def stamp_eval)
  moreover have "valid_datetime (publish_date sample_page)
      \<and> [999, 1, 1, 0, 0, 0] \<le> dt_seconds (publish_date sample_page)
      \<and> dt_seconds (publish_date sample_page) \<le> [2025, 12, 31, 23, 59, 59]"
    by (simp add: valid_datetime_def valid_date_def days_in_month_def is_leap_def dt_seconds_def
        sample_page_def)
  ultimately show ?thesis
    using p by (simp add: sample_db_articles sample_publish_stamp)
qed

lemma date_range_query_sample:
  "(\<exists>rows. get_articles_by_date_range False sample_db ''2025-03-14'' ''2025-03-14'' = map columns7 rows
          \<and> hd (articles sample_db) \<in> set rows)
   \<and> get_articles_by_date_range False sample_db ''2025-3-14x'' ''2025-03-14'' = []"
proof -
  let ?day = "\<lparr>year = 2025, month = 3, day = 14, hour = 0, minute = 0, second = 0, microsecond = 0\<rparr>"
  have p: "strptime_ymd ''2025-03-14'' = Inr ?day"
    and q: "isl (strptime_ymd ''2025-3-14x'')"
    by (simp_all add: strptime_eval)
  note some = date_range_query [where padded = False and db = sample_db
      and start_date = "''2025-03-14''" and end_date = "''2025-03-14''" and s = ?day and e = ?day,
      THEN conjunct2, THEN mp]
  note none = date_range_query [where padded = False and db = sample_db
      and start_date = "''2025-3-14x''" and end_date = "''2025-03-14''", THEN conjunct1, THEN mp]
  from some p obtain rows where
    r: "get_articles_by_date_range False sample_db ''2025-03-14'' ''2025-03-14'' = map columns7 rows"
    and m: "\<forall>r d. valid_datetime d \<and> (False \<or> 1000 \<le> year d)
                     \<and> row_publish_date r = strftime False d \<longrightarrow>
                  (r \<in> set rows \<longleftrightarrow>
                     r \<in> set (articles sample_db)
                     \<and> [year ?day, month ?day, day ?day, 0, 0, 0] \<le> dt_seconds d
                     \<and> dt_seconds d \<le> [year ?day, month ?day, day ?day, 23, 59, 59])"
    by auto
  have "valid_datetime (publish_date sample_page) \<and> (False \<or> 1000 \<le> year (publish_date sample_page))
      \<and> row_publish_date (hd (articles sample_db)) = strftime False (publish_date sample_page)"
    by (simp add: valid_datetime_def valid_date_def days_in_month_def is_leap_def
        sample_db_articles sample_publish_stamp) (simp add: sample_page_def)
  with m have "hd (articles sample_db) \<in> set rows \<longleftrightarrow>
      hd (articles sample_db) \<in> set (articles sample_db)
      \<and> [year ?day, month ?day, day ?day, 0, 0, 0] \<le> dt_seconds (publish_date sample_page)
      \<and> dt_seconds (publish_date sample_page) \<le> [year ?day, month ?day, day ?day, 23, 59, 59]"
    by blast
  moreover have "hd (articles sample_db) \<in> set (articles sample_db)"
    by (simp add: sample_db_articles)
  moreover have "[year ?day, month ?day, day ?day, 0, 0, 0] \<le> dt_seconds (publish_date sample_page)
      \<and> dt_seconds (publish_date sample_page) \<le> [year ?day, month ?day, day ?day, 23, 59, 59]"
    by (simp add: dt_seconds_def sample_page_def)
  ultimately have "hd (articles sample_db) \<in> set rows" by blast
  with r none q show ?thesis by blast
qed

text \<open>
  C9. The term is put into the \<^verbatim>\<open>LIKE\<close> pattern as it is, so a percent
  sign or an underscore in it is a wildcard. The search for \<^verbatim>\<open>5%\<close>
  returns the sample article, whose title, content and summary do not contain
  \<^verbatim>\<open>5%\<close>.
\<close>

theorem search_wildcard_term:
  "fst (search_by_term False sample_clock sample_db ''5%'')
     = [(1, ''Fed holds rates'', sample_url, ''CNBC'', ''2025-03-14 08:00:00'', ''Top 5 stocks to watch.'')]
   \<and> \<not> contains (lower ''Fed holds rates'') (lower ''5%'')
   \<and> \<not> contains (lower ''Top 5 stocks to watch.'') (lower ''5%'')"
  by (simp add: search_by_term_def replace_search_term_def Let_def term_matches_def
      order_by_desc_def sample_db_articles char_eval)


text \<open>
  The rest of what is said of the search holds: the articles table is left as it was,
  the term's row is written anew with the clock's time, and for a term with no percent
  sign and no underscore the rows returned are those whose title, content or summary
  contains the term, the letters A to Z compared without regard to case, latest publish
  date first.
\<close>

lemma like_percent: "like ''%'' s"
  by (induction s) simp_all

lemma like_prefix:
  assumes "CHR ''%'' \<notin> set t" and "CHR ''_'' \<notin> set t"
  shows "like (t @ ''%'') s \<longleftrightarrow> prefix (map sqlite_lower t) (map sqlite_lower s)"
  using assms
proof (induction t arbitrary: s)
  case Nil
  then show ?case using like_percent by simp
next
  case (Cons c t)
  then show ?case by (cases s) auto
qed

lemma like_substring:
  assumes "CHR ''%'' \<notin> set t" and "CHR ''_'' \<notin> set t"
  shows "like (''%'' @ t @ ''%'') s \<longleftrightarrow> contains (map sqlite_lower s) (map sqlite_lower t)"
proof (induction s)
  case Nil
  show ?case using like_prefix [OF assms, of "[]"] by simp
next
  case (Cons x xs)
  have "like (''%'' @ t @ ''%'') (x # xs) \<longleftrightarrow>
      like (t @ ''%'') (x # xs) \<or> like (''%'' @ t @ ''%'') xs"
    by simp
  also have "\<dots> \<longleftrightarrow> prefix (map sqlite_lower t) (map sqlite_lower (x # xs))
      \<or> contains (map sqlite_lower xs) (map sqlite_lower t)"
    using like_prefix [OF assms, of "x # xs"] Cons.IH by simp
  also have "\<dots> \<longleftrightarrow> contains (map sqlite_lower (x # xs)) (map sqlite_lower t)"
    by simp
  finally show ?case .
qed

lemma search_by_term_frame:
  "articles (snd (search_by_term padded now db term)) = articles db
   \<and> (\<exists>older t. search_terms (snd (search_by_term padded now db term)) = older @ [t]
        \<and> st_term t = term \<and> st_last_search t = strftime padded now
        \<and> (\<forall>x\<in>set older. st_term x \<noteq> term))"
  using search_by_term_row [of padded now db "term"]
  by (simp add: search_by_term_def replace_search_term_def Let_def)

lemma search_by_term_plain:
  assumes "CHR ''%'' \<notin> set term" and "CHR ''_'' \<notin> set term"
  shows "\<exists>rows. fst (search_by_term padded now db term)
           = map (\<lambda>r. (row_id r, row_title r, row_url r, row_source r, row_publish_date r, row_summary r)) rows
       \<and> sorted_wrt (\<ge>) (map row_publish_date rows)
       \<and> (\<forall>r. r \<in> set rows \<longleftrightarrow>
             r \<in> set (articles db)
             \<and> (contains (map sqlite_lower (row_title r)) (map sqlite_lower term)
                \<or> contains (map sqlite_lower (row_content r)) (map sqlite_lower term)
                \<or> contains (map sqlite_lower (row_summary r)) (map sqlite_lower term)))"
proof -
  let ?rows = "order_by_desc row_publish_date
      (filter (term_matches (''%'' @ term @ ''%'')) (articles db))"
  have "fst (search_by_term padded now db term)
      = map (\<lambda>r. (row_id r, row_title r, row_url r, row_source r, row_publish_date r, row_summary r)) ?rows"
    by (simp add: search_by_term_def replace_search_term_def Let_def)
  moreover have "sorted_wrt (\<ge>) (map row_publish_date ?rows)"
    by (rule sorted_order_by_desc)
  moreover have "r \<in> set ?rows \<longleftrightarrow>
             r \<in> set (articles db)
             \<and> (contains (map sqlite_lower (row_title r)) (map sqlite_lower term)
                \<or> contains (map sqlite_lower (row_content r)) (map sqlite_lower term)
                \<or> contains (map sqlite_lower (row_summary r)) (map sqlite_lower term))" for r
    using like_substring [OF assms] by (simp add: set_order_by_desc term_matches_def)
  ultimately show ?thesis by blast
qed

end
